theory Spec2Isabelle
  imports
    Complex_Main
    "HOL-Library.Multiset"
    "HOL-Library.Char_ord"
    "HOL-Library.List_Lexorder"
    "HOL-Library.AList"
    "HOL-Library.Log_Nat"
begin

section \<open>The air-quality notebook: data model\<close>

text \<open>
  The notebook \<^verbatim>\<open>pm-a-new-function_filled.ipynb\<close> reads a long-format table of
  air-quality readings, cleans it, pivots it, resamples it to weekly means, adds a
  boolean flag and writes the result. Its cells are pandas calls; each is embedded below
  as a function on the table it transforms, in the order the cells run.

  A cell of the \<^verbatim>\<open>Value\<close> column is a float64 in the program. A float64 that is a
  number is given by the rational it stands for; the two infinities are values of their
  own, and NaN, which pandas takes for a missing cell, is \<open>None\<close>. Sums and quotients
  are rounded to the nearest float64, as the program's are.

  A time stamp is pandas' \<^verbatim>\<open>Timestamp\<close> (nanoseconds since 1970-01-01 00:00, no time
  zone) or the missing value \<^verbatim>\<open>NaT\<close>.
\<close>

datatype timestamp = NaT | Timestamp int

datatype error = ValueError | KeyError | AttributeError

datatype float64 = Finite rat | PInf | NInf

text \<open>
  One record of the table read by \<^verbatim>\<open>pd.read_csv(data_filepath)\<close>. The three columns the
  notebook names are fields; every other column of the file is kept, in order, in
  \<open>others\<close>. A missing cell is \<open>None\<close>. The \<^verbatim>\<open>Value\<close> column holds finite numbers, as
  it does in the file the notebook reads. The type parameter is the type of the
  \<^verbatim>\<open>ReadingDateTime\<close> column: text as read, a time stamp after \<^verbatim>\<open>astype\<close>.
\<close>

record 't row =
  ReadingDateTime :: 't
  Species :: "string option"
  Value :: "rat option"
  others :: "string option list"

text \<open>
  A data frame: the index and the named columns, each column as long as the index.
  The type parameter is the type of a column.
\<close>

record 'c frame =
  index :: "timestamp list"
  columns :: "(string \<times> 'c) list"

datatype column = Float64 "float64 option list" | Boolean "bool list"

datatype cell = Num "float64 option" | Flag bool

section \<open>Cleaning\<close>

text \<open>
  \<^verbatim>\<open>df.dropna(how='any', axis=0, inplace=True)\<close>: a row stays when none of its cells is
  missing.
\<close>

definition notna :: "string option row \<Rightarrow> bool" where
  "notna r \<longleftrightarrow>
     ReadingDateTime r \<noteq> None \<and> Species r \<noteq> None \<and> Value r \<noteq> None \<and>
     list_all (\<lambda>x. x \<noteq> None) (others r)"

definition dropna :: "string option row list \<Rightarrow> string option row list" where
  "dropna df = filter notna df"

text \<open>
  \<^verbatim>\<open>df['ReadingDateTime'].astype('datetime64')\<close>: every cell of the column is parsed; a
  missing cell becomes \<^verbatim>\<open>NaT\<close> and a text that is no date raises. The parser of date
  texts belongs to pandas and is a parameter here: it gives the time stamp of the text,
  which is \<^verbatim>\<open>NaT\<close> for a text such as \<^verbatim>\<open>'NaT'\<close>, or \<open>None\<close> for a text it rejects.
\<close>

fun to_datetime :: "(string \<Rightarrow> timestamp option) \<Rightarrow> string option \<Rightarrow> error + timestamp" where
  "to_datetime parse None = Inr NaT"
| "to_datetime parse (Some s) =
     (case parse s of None \<Rightarrow> Inl ValueError | Some t \<Rightarrow> Inr t)"

definition stamp_row :: "(string \<Rightarrow> timestamp option) \<Rightarrow> string option row \<Rightarrow> error + timestamp row" where
  "stamp_row parse r =
     (case to_datetime parse (ReadingDateTime r) of
        Inl e \<Rightarrow> Inl e
      | Inr t \<Rightarrow>
          Inr \<lparr>ReadingDateTime = t, Species = Species r, Value = Value r, others = others r\<rparr>)"

fun astype_datetime64 ::
  "(string \<Rightarrow> timestamp option) \<Rightarrow> string option row list \<Rightarrow> error + timestamp row list" where
  "astype_datetime64 parse [] = Inr []"
| "astype_datetime64 parse (r # df) =
     (case stamp_row parse r of
        Inl e \<Rightarrow> Inl e
      | Inr r' \<Rightarrow>
          (case astype_datetime64 parse df of
             Inl e \<Rightarrow> Inl e
           | Inr df' \<Rightarrow> Inr (r' # df')))"

text \<open>
  \<^verbatim>\<open>df.set_index('ReadingDateTime', inplace=True, drop=True)\<close> moves the column into the
  index of the frame. The rows and their time stamps stay as they are, and the pivot
  below names the index by the same name, so the step changes nothing in this model.
\<close>

section \<open>Float64 arithmetic\<close>

text \<open>
  The result of an operation on float64 numbers is the exact result rounded to the
  nearest float64, to the one with an even mantissa when two are equally near. A
  float64 has a mantissa of 53 bits; the exponent of its last bit is at least -1074,
  and a result that rounds to \<open>2 ^ 1024\<close> or beyond is an infinity. \<open>floorlog2 q\<close> is
  the exponent of the leading bit of \<open>q\<close>.
\<close>

definition pow2 :: "int \<Rightarrow> rat" where
  "pow2 e = (if 0 \<le> e then 2 ^ nat e else 1 / 2 ^ nat (- e))"

definition nearest_even :: "int \<Rightarrow> rat \<Rightarrow> int" where
  "nearest_even f d =
     (if d < 1 / 2 then f else if 1 / 2 < d then f + 1 else if even f then f else f + 1)"

definition round_half_even :: "rat \<Rightarrow> int" where
  "round_half_even x = nearest_even \<lfloor>x\<rfloor> (x - of_int \<lfloor>x\<rfloor>)"

definition log2_between :: "int \<Rightarrow> rat \<Rightarrow> int" where
  "log2_between k q = (if pow2 k \<le> q then k else k - 1)"

definition floorlog2 :: "rat \<Rightarrow> int" where
  "floorlog2 q = log2_between (bitlen (fst (quotient_of q)) - bitlen (snd (quotient_of q))) q"

definition exponent :: "rat \<Rightarrow> int" where
  "exponent a = max (floorlog2 a - 52) (- 1074)"

text \<open>
  The mantissa \<open>m\<close> is at most \<open>2 ^ 53 = 9007199254740992\<close>, so \<open>m * 2 ^ e\<close> reaches
  \<open>2 ^ 1024\<close> exactly when \<open>e\<close> is above 971, or is 971 with the mantissa \<open>2 ^ 53\<close>.
\<close>

definition pack :: "bool \<Rightarrow> int \<Rightarrow> int \<Rightarrow> float64" where
  "pack positive e m =
     (if 971 < e \<or> (e = 971 \<and> m = 9007199254740992) then (if positive then PInf else NInf)
      else Finite ((if positive then 1 else - 1) * of_int m * pow2 e))"

definition round_with :: "bool \<Rightarrow> rat \<Rightarrow> int \<Rightarrow> float64" where
  "round_with positive a e = pack positive e (round_half_even (a / pow2 e))"

definition round64 :: "rat \<Rightarrow> float64" where
  "round64 q = (if q = 0 then Finite 0 else round_with (0 < q) \<bar>q\<bar> (exponent \<bar>q\<bar>))"

text \<open>
  Addition; \<open>None\<close> is NaN. Adding zero changes nothing in float64 arithmetic, which is
  written out so that it holds of every rational of the model.
\<close>

fun fadd :: "float64 \<Rightarrow> float64 \<Rightarrow> float64 option" where
  "fadd (Finite a) (Finite b) =
     Some (if a = 0 then Finite b else if b = 0 then Finite a else round64 (a + b))"
| "fadd PInf NInf = None"
| "fadd NInf PInf = None"
| "fadd PInf y = Some PInf"
| "fadd x PInf = Some PInf"
| "fadd NInf y = Some NInf"
| "fadd x NInf = Some NInf"

text \<open>Division by a count; dividing by one changes nothing.\<close>

fun fdiv :: "float64 \<Rightarrow> nat \<Rightarrow> float64" where
  "fdiv (Finite a) n = (if n = 1 then Finite a else round64 (a / of_nat n))"
| "fdiv PInf n = PInf"
| "fdiv NInf n = NInf"

text \<open>
  The mean of a group, as pandas' \<^verbatim>\<open>group_mean\<close> takes it: the values are added one by
  one, in the order of the rows, to a sum that starts at zero, and the sum is divided by
  their number. A group without a value has the mean NaN. (Later versions of pandas
  carry a correction term along the sum; the result is the same whenever no sum is
  rounded, and it depends on the order of the values in either case.)
\<close>

fun fsum :: "float64 option \<Rightarrow> float64 list \<Rightarrow> float64 option" where
  "fsum s [] = s"
| "fsum s (v # vs) = fsum (case s of None \<Rightarrow> None | Some a \<Rightarrow> fadd a v) vs"

definition mean :: "float64 list \<Rightarrow> float64 option" where
  "mean vs =
     (if vs = [] then None
      else map_option (\<lambda>s. fdiv s (length vs)) (fsum (Some (Finite 0)) vs))"

section \<open>Pivot\<close>

text \<open>
  \<^verbatim>\<open>pd.pivot_table(df, index=['ReadingDateTime'], columns=['Species'], values='Value')\<close>
  groups the rows by the pair (time stamp, species) and takes the mean of the values of
  each group (the default \<^verbatim>\<open>aggfunc\<close>), the values in the order of the rows; grouping
  leaves out a row whose key is missing and the mean skips a missing value. The result
  has the distinct time stamps, sorted, as index and one column for each distinct
  species, sorted by name; a pair without a group has a missing cell.
\<close>

definition reading :: "timestamp row \<Rightarrow> (int \<times> string \<times> rat) list" where
  "reading r =
     (case (ReadingDateTime r, Species r, Value r) of
        (Timestamp n, Some c, Some v) \<Rightarrow> [(n, c, v)]
      | _ \<Rightarrow> [])"

definition readings :: "timestamp row list \<Rightarrow> (int \<times> string \<times> rat) list" where
  "readings df = concat (map reading df)"

definition group_values :: "(int \<times> string \<times> rat) list \<Rightarrow> int \<Rightarrow> string \<Rightarrow> float64 list" where
  "group_values rs t c =
     map (\<lambda>(t', c', v). Finite v) (filter (\<lambda>(t', c', v). t' = t \<and> c' = c) rs)"

definition pivot_table :: "timestamp row list \<Rightarrow> float64 option list frame" where
  "pivot_table df =
     (let rs = readings df;
          idx = sort (remdups (map fst rs));
          cols = sort (remdups (map (\<lambda>(t, c, v). c) rs))
      in \<lparr>index = map Timestamp idx,
          columns = map (\<lambda>c. (c, map (\<lambda>t. mean (group_values rs t c)) idx)) cols\<rparr>)"

section \<open>Weekly resampling\<close>

text \<open>
  \<^verbatim>\<open>pivoted.resample('W', label='right').mean()\<close>. The frequency \<^verbatim>\<open>'W'\<close> is the week
  ending on Sunday; its bins are closed on the right. pandas takes the day of the first
  and of the last time stamp, steps back to the Sunday before the first and forward to
  the Sunday after the last, and lays the grid of Sundays between them. The edge of a
  bin is the last nanosecond of its Sunday, and the label of a bin is the Sunday (at
  midnight) at its right end. The last grid point is dropped when the one before it
  already lies after every time stamp.
\<close>

definition day_nanos :: int where
  "day_nanos = 86400000000000"

definition week_nanos :: int where
  "week_nanos = 7 * day_nanos"

definition normalize :: "int \<Rightarrow> int" where
  "normalize t = (t div day_nanos) * day_nanos"

text \<open>Monday is 0 and Sunday is 6; 1970-01-01 was a Thursday.\<close>

definition weekday :: "int \<Rightarrow> int" where
  "weekday t = (t div day_nanos + 3) mod 7"

text \<open>Adding and subtracting the offset \<^verbatim>\<open>Week(weekday=6)\<close>, at a midnight.\<close>

definition add_week :: "int \<Rightarrow> int" where
  "add_week t =
     (if weekday t \<noteq> 6 then t + ((6 - weekday t) mod 7) * day_nanos
      else t + week_nanos)"

definition sub_week :: "int \<Rightarrow> int" where
  "sub_week t =
     (if weekday t \<noteq> 6 then t + ((6 - weekday t) mod 7) * day_nanos - week_nanos
      else t - week_nanos)"

definition date_range :: "int \<Rightarrow> int \<Rightarrow> int list" where
  "date_range start stop =
     map (\<lambda>k. start + int k * week_nanos) [0 ..< nat ((stop - start) div week_nanos + 1)]"

definition bin_edge :: "int \<Rightarrow> int" where
  "bin_edge b = b + day_nanos - 1"

fun ax_min :: "int list \<Rightarrow> int" where
  "ax_min [] = 0"
| "ax_min (t # ts) = fold min ts t"

fun ax_max :: "int list \<Rightarrow> int" where
  "ax_max [] = 0"
| "ax_max (t # ts) = fold max ts t"

text \<open>The labels of the bins, for the time stamps \<open>ax\<close> of a frame (not empty).\<close>

definition time_bins :: "int list \<Rightarrow> int list" where
  "time_bins ax =
     (let first = sub_week (normalize (ax_min ax));
          final = add_week (normalize (ax_max ax));
          binner = date_range first final;
          binner' = (if bin_edge (last (butlast binner)) > ax_max ax
                     then butlast binner else binner)
      in tl binner')"

text \<open>
  The bin labelled \<open>l\<close> holds the time stamps after the edge of the Sunday a week
  before and up to the edge of \<open>l\<close>. A label is a time stamp, and a row without a time
  stamp is in no bin.
\<close>

definition in_bin :: "int \<Rightarrow> int \<Rightarrow> bool" where
  "in_bin l t \<longleftrightarrow> bin_edge (l - week_nanos) < t \<and> t \<le> bin_edge l"

fun in_label :: "timestamp \<Rightarrow> timestamp \<Rightarrow> bool" where
  "in_label (Timestamp l) (Timestamp t) = in_bin l t"
| "in_label l t = False"

text \<open>
  The cells of a column in the rows whose label satisfies \<open>P\<close>, missing cells left out:
  the mean of a bin skips them.
\<close>

definition cells_where ::
  "(timestamp \<Rightarrow> bool) \<Rightarrow> timestamp list \<Rightarrow> float64 option list \<Rightarrow> float64 list" where
  "cells_where P idx col =
     concat (map (\<lambda>(t, x). case x of Some v \<Rightarrow> if P t then [v] else [] | None \<Rightarrow> [])
       (zip idx col))"

definition stamps :: "timestamp list \<Rightarrow> int list" where
  "stamps idx = concat (map (\<lambda>t. case t of Timestamp n \<Rightarrow> [n] | NaT \<Rightarrow> []) idx)"

text \<open>
  The frame of the weekly means. The rows without a time stamp are left out; a frame
  that has rows and not one time stamp makes pandas raise.
\<close>

definition resample_W_mean ::
  "float64 option list frame \<Rightarrow> error + float64 option list frame" where
  "resample_W_mean df =
     (if index df = [] then Inr \<lparr>index = [], columns = map (\<lambda>(c, col). (c, [])) (columns df)\<rparr>
      else if stamps (index df) = [] then Inl AttributeError
      else
        let labels = map Timestamp (time_bins (stamps (index df)))
        in Inr \<lparr>index = labels,
                columns =
                  map (\<lambda>(c, col). (c, map (\<lambda>l. mean (cells_where (in_label l) (index df) col)) labels))
                    (columns df)\<rparr>)"

section \<open>The flag\<close>

text \<open>
  \<^verbatim>\<open>weekly_mean['Hazardous'] = weekly_mean['NOX'] > 50.\<close> The lookup raises when the
  frame has no column \<^verbatim>\<open>NOX\<close>. A missing value is greater than nothing, and the
  positive infinity is greater than every number. The assignment
  replaces a column of that name and appends the column otherwise.
\<close>

fun gt :: "float64 option \<Rightarrow> rat \<Rightarrow> bool" where
  "gt None x = False"
| "gt (Some (Finite v)) x = (v > x)"
| "gt (Some PInf) x = True"
| "gt (Some NInf) x = False"

definition add_hazardous :: "float64 option list frame \<Rightarrow> error + column frame" where
  "add_hazardous weekly_mean =
     (case map_of (columns weekly_mean) ''NOX'' of
        None \<Rightarrow> Inl KeyError
      | Some nox \<Rightarrow>
          Inr \<lparr>index = index weekly_mean,
               columns = AList.update ''Hazardous'' (Boolean (map (\<lambda>v. gt v 50) nox))
                           (map (\<lambda>(c, col). (c, Float64 col)) (columns weekly_mean))\<rparr>)"

section \<open>The cells in order\<close>

text \<open>
  The cells of the notebook from \<^verbatim>\<open>dropna\<close> to the flag, run one after the other on the
  table that was read: the result is the frame bound to \<^verbatim>\<open>weekly_mean\<close> when the flag
  has been added, the frame that \<^verbatim>\<open>to_csv\<close> then writes. An exception in a cell ends
  the run.
\<close>

definition weekly_mean_table ::
  "(string \<Rightarrow> timestamp option) \<Rightarrow> string option row list \<Rightarrow> error + column frame" where
  "weekly_mean_table parse df =
     (case astype_datetime64 parse (dropna df) of
        Inl e \<Rightarrow> Inl e
      | Inr df' \<Rightarrow>
          (case resample_W_mean (pivot_table df') of
             Inl e \<Rightarrow> Inl e
           | Inr weekly_mean \<Rightarrow> add_hazardous weekly_mean))"

text \<open>Reading a frame by rows: the cell of a column at a position, and the row there.\<close>

fun column_nth :: "column \<Rightarrow> nat \<Rightarrow> cell" where
  "column_nth (Float64 xs) i = Num (xs ! i)"
| "column_nth (Boolean bs) i = Flag (bs ! i)"

definition row_at :: "column frame \<Rightarrow> nat \<Rightarrow> (string \<times> cell) list" where
  "row_at df i = map (\<lambda>(c, col). (c, column_nth col i)) (columns df)"

section \<open>Paths\<close>



section \<open>The function of the exercise\<close>

text \<open>
  Modelled from the spec: the file system that \<^verbatim>\<open>process_csv_file\<close> reads and writes.
  The notebook only names paths; the spec (4.1) speaks of an input file that may be
  missing or lack the three columns, and of an output folder that is created with its
  parents and may not be writable. A file holds a table of readings, a table of weekly
  means, or something else.
\<close>

datatype content = Readings "string option row list" | Weekly "column frame" | Other





section \<open>Notions used to state the properties\<close>

text \<open>
  The key by which the pivot groups a row of the table that was read: the time stamp
  that its date stands for, if it is one, and its species.
\<close>

definition group_key ::
  "(string \<Rightarrow> timestamp option) \<Rightarrow> string option row \<Rightarrow> int option \<times> string option" where
  "group_key parse r =
     ((case ReadingDateTime r of
         None \<Rightarrow> None
       | Some s \<Rightarrow> (case parse s of Some (Timestamp n) \<Rightarrow> Some n | _ \<Rightarrow> None)),
      Species r)"

text \<open>
  The week of a time stamp, counted so that a week runs from Monday to Sunday, and the
  Sunday (at midnight) that ends it.
\<close>

definition week_number :: "int \<Rightarrow> int" where
  "week_number t = (t div day_nanos + 3) div 7"

definition week_label :: "int \<Rightarrow> int" where
  "week_label t = (7 * week_number t + 3) * day_nanos"

definition week_grid :: "int \<Rightarrow> nat \<Rightarrow> int list" where
  "week_grid w n = map (\<lambda>k. (7 * (w + int k) + 3) * day_nanos) [0 ..< n]"

text \<open>A time stamp whose day lies after the day \<open>lo\<close> and up to the day \<open>hi\<close>.\<close>

fun in_window :: "int \<Rightarrow> int \<Rightarrow> timestamp \<Rightarrow> bool" where
  "in_window lo hi NaT = False"
| "in_window lo hi (Timestamp t) = (lo < normalize t \<and> normalize t \<le> hi)"

text \<open>\<^verbatim>\<open>df.at[t, c]\<close>: the cell at a row label and a column name.\<close>

definition frame_at :: "'a list frame \<Rightarrow> timestamp \<Rightarrow> string \<Rightarrow> error + 'a" where
  "frame_at df t c =
     (case map_of (columns df) c of
        None \<Rightarrow> Inl KeyError
      | Some col \<Rightarrow>
          (case map_of (zip (index df) col) t of None \<Rightarrow> Inl KeyError | Some x \<Rightarrow> Inr x))"

text \<open>
  The long format. A row of the table gives a triple; a wide frame is unpivoted into
  one triple for each cell that is not missing.
\<close>

definition triple :: "timestamp row \<Rightarrow> timestamp \<times> string option \<times> float64 option" where
  "triple r = (ReadingDateTime r, Species r, map_option Finite (Value r))"

definition melt ::
  "float64 option list frame \<Rightarrow> (timestamp \<times> string option \<times> float64 option) list" where
  "melt df =
     concat (map (\<lambda>(c, col).
       concat (map (\<lambda>(t, x). case x of Some v \<Rightarrow> [(t, Some c, Some v)] | None \<Rightarrow> [])
         (zip (index df) col)))
       (columns df))"

text \<open>
  A small table in the layout of the file the notebook reads (site, species, date,
  value, units), with the dates it uses; the last row has no value.
\<close>

definition example_parse :: "string \<Rightarrow> timestamp option" where
  "example_parse =
     map_of
       [(''2016-01-04 00:00:00'', Timestamp (16804 * day_nanos)),
        (''2016-01-05 00:00:00'', Timestamp (16805 * day_nanos)),
        (''2016-01-19 13:00:00'', Timestamp (16819 * day_nanos + 46800000000000)),
        (''2016-01-20 00:00:00'', Timestamp (16820 * day_nanos)),
        (''NaT'', NaT)]"

definition example_row :: "string \<Rightarrow> string \<Rightarrow> rat \<Rightarrow> string option row" where
  "example_row s c v =
     \<lparr>ReadingDateTime = Some s, Species = Some c, Value = Some v,
      others = [Some ''MY7'', Some ''ug m-3'']\<rparr>"

definition example_df :: "string option row list" where
  "example_df =
     [example_row ''2016-01-04 00:00:00'' ''NOX'' 40,
      example_row ''2016-01-04 00:00:00'' ''PM10'' 10,
      example_row ''2016-01-05 00:00:00'' ''NOX'' 60,
      example_row ''2016-01-05 00:00:00'' ''PM10'' 12,
      example_row ''2016-01-19 13:00:00'' ''NOX'' 70,
      example_row ''2016-01-19 13:00:00'' ''NOX'' 80,
      \<lparr>ReadingDateTime = Some ''2016-01-20 00:00:00'', Species = Some ''PM10'', Value = None,
       others = [Some ''MY7'', Some ''ug m-3'']\<rparr>]"

text \<open>The rows of the example after cleaning and parsing.\<close>

definition example_stamped :: "int \<Rightarrow> string \<Rightarrow> rat \<Rightarrow> timestamp row" where
  "example_stamped n c v =
     \<lparr>ReadingDateTime = Timestamp n, Species = Some c, Value = Some v,
      others = [Some ''MY7'', Some ''ug m-3'']\<rparr>"

definition example_stamped_nat :: "string \<Rightarrow> rat \<Rightarrow> timestamp row" where
  "example_stamped_nat c v =
     \<lparr>ReadingDateTime = NaT, Species = Some c, Value = Some v,
      others = [Some ''MY7'', Some ''ug m-3'']\<rparr>"

definition example_clean :: "timestamp row list" where
  "example_clean =
     [example_stamped 1451865600000000000 ''NOX'' 40,
      example_stamped 1451865600000000000 ''PM10'' 10,
      example_stamped 1451952000000000000 ''NOX'' 60,
      example_stamped 1451952000000000000 ''PM10'' 12,
      example_stamped 1453208400000000000 ''NOX'' 70,
      example_stamped 1453208400000000000 ''NOX'' 80]"

text \<open>The weekly means of the example, before the flag is added.\<close>

definition example_weekly :: "float64 option list frame" where
  "example_weekly =
     \<lparr>index =
        [Timestamp 1452384000000000000, Timestamp 1452988800000000000,
         Timestamp 1453593600000000000],
      columns = [(''NOX'', [Some (Finite 50), None, Some (Finite 75)]), (''PM10'', [Some (Finite 11), None, None])]\<rparr>"

text \<open>The result of the cells on the example.\<close>

definition example_out :: "column frame" where
  "example_out =
     \<lparr>index =
        [Timestamp 1452384000000000000, Timestamp 1452988800000000000,
         Timestamp 1453593600000000000],
      columns =
        [(''NOX'', Float64 [Some (Finite 50), None, Some (Finite 75)]),
         (''PM10'', Float64 [Some (Finite 11), None, None]),
         (''Hazardous'', Boolean [False, False, True])]\<rparr>"

text \<open>
  The example with its first two rows exchanged; they differ in the species.
\<close>

definition example_df_exchanged :: "string option row list" where
  "example_df_exchanged =
     [example_row ''2016-01-04 00:00:00'' ''PM10'' 10,
      example_row ''2016-01-04 00:00:00'' ''NOX'' 40,
      example_row ''2016-01-05 00:00:00'' ''NOX'' 60,
      example_row ''2016-01-05 00:00:00'' ''PM10'' 12,
      example_row ''2016-01-19 13:00:00'' ''NOX'' 70,
      example_row ''2016-01-19 13:00:00'' ''NOX'' 80,
      \<lparr>ReadingDateTime = Some ''2016-01-20 00:00:00'', Species = Some ''PM10'', Value = None,
       others = [Some ''MY7'', Some ''ug m-3'']\<rparr>]"

text \<open>
  Three NOX readings at one time stamp, two of them large and opposite, in two orders.
  All three values are float64 numbers.
\<close>

definition cancelling_df :: "string option row list" where
  "cancelling_df =
     [example_row ''2016-01-04 00:00:00'' ''NOX'' 100000000000000000,
      example_row ''2016-01-04 00:00:00'' ''NOX'' (303 / 2),
      example_row ''2016-01-04 00:00:00'' ''NOX'' (- 100000000000000000)]"

definition cancelling_df_permuted :: "string option row list" where
  "cancelling_df_permuted =
     [example_row ''2016-01-04 00:00:00'' ''NOX'' 100000000000000000,
      example_row ''2016-01-04 00:00:00'' ''NOX'' (- 100000000000000000),
      example_row ''2016-01-04 00:00:00'' ''NOX'' (303 / 2)]"

definition cancelling_clean :: "timestamp row list" where
  "cancelling_clean =
     [example_stamped 1451865600000000000 ''NOX'' 100000000000000000,
      example_stamped 1451865600000000000 ''NOX'' (303 / 2),
      example_stamped 1451865600000000000 ''NOX'' (- 100000000000000000)]"


section \<open>Properties of cleaning and parsing\<close>

lemma dropna_notna: "r \<in> set (dropna df) \<Longrightarrow> notna r"
  by (simp add: dropna_def)

lemma stamp_row_error: "stamp_row parse r = Inl e \<Longrightarrow> e = ValueError"
  by (cases "ReadingDateTime r")
     (auto simp: stamp_row_def split: option.splits sum.splits)

lemma astype_datetime64_eq:
  "astype_datetime64 parse df =
     (if list_all (\<lambda>r. \<not> isl (stamp_row parse r)) df
      then Inr (map (\<lambda>r. projr (stamp_row parse r)) df)
      else Inl ValueError)"
proof (induction df)
  case Nil
  show ?case by simp
next
  case (Cons r df)
  show ?case
  proof (cases "stamp_row parse r")
    case (Inl e)
    then show ?thesis using stamp_row_error [OF Inl] by simp
  next
    case (Inr r')
    then show ?thesis using Cons.IH by simp
  qed
qed

lemma astype_datetime64_perm:
  assumes "mset df' = mset df"
  shows "(case astype_datetime64 parse df' of Inl e \<Rightarrow> Inl e | Inr d \<Rightarrow> Inr (mset d)) =
         (case astype_datetime64 parse df of Inl e \<Rightarrow> Inl e | Inr d \<Rightarrow> Inr (mset d))"
proof -
  have "set df' = set df" using assms by (rule mset_eq_setD)
  then have "list_all P df' = list_all P df" for P :: "string option row \<Rightarrow> bool"
    by (simp add: list_all_iff)
  moreover have "mset (map f df') = mset (map f df)" for f :: "string option row \<Rightarrow> timestamp row"
    using assms by simp
  ultimately show ?thesis
    by (simp add: astype_datetime64_eq)
qed

lemma notna_stamp_row:
  assumes "notna r" and "stamp_row parse r = Inr r'"
  shows "\<exists>c v. Species r' = Some c \<and> Value r' = Some v"
  using assms
  by (cases "ReadingDateTime r")
     (auto simp: notna_def stamp_row_def split: option.splits)

lemma astype_rows:
  assumes "astype_datetime64 parse df = Inr d" and "r' \<in> set d"
  shows "\<exists>r \<in> set df. stamp_row parse r = Inr r'"
proof -
  from assms(1) have all: "list_all (\<lambda>r. \<not> isl (stamp_row parse r)) df"
    and d: "d = map (\<lambda>r. projr (stamp_row parse r)) df"
    by (auto simp: astype_datetime64_eq split: if_splits)
  from assms(2) d obtain r where r: "r \<in> set df" "r' = projr (stamp_row parse r)" by auto
  with all have "\<not> isl (stamp_row parse r)" by (simp add: list_all_iff)
  with r show ?thesis by (cases "stamp_row parse r") auto
qed

lemma clean_rows:
  assumes "astype_datetime64 parse (dropna df) = Inr d" and "r' \<in> set d"
  shows "\<exists>c v. Species r' = Some c \<and> Value r' = Some v"
proof -
  from astype_rows [OF assms] obtain r where "r \<in> set (dropna df)" "stamp_row parse r = Inr r'"
    by blast
  then show ?thesis using notna_stamp_row dropna_notna by blast
qed

lemma clean_stamped_rows:
  assumes "astype_datetime64 parse (dropna df) = Inr d" and "r' \<in> set d"
    and "ReadingDateTime r' \<noteq> NaT"
  shows "\<exists>n c v. triple r' = (Timestamp n, Some c, Some (Finite v)) \<and> reading r' = [(n, c, v)]"
proof -
  from clean_rows [OF assms(1,2)] obtain c v where "Species r' = Some c" "Value r' = Some v"
    by blast
  moreover from assms(3) obtain n where "ReadingDateTime r' = Timestamp n"
    by (cases "ReadingDateTime r'") auto
  ultimately show ?thesis
    by (simp add: triple_def reading_def)
qed

section \<open>Properties of the pivot\<close>

lemma mean_Nil [simp]: "mean [] = None"
  by (simp add: mean_def)

lemma fadd_zero: "fadd (Finite 0) v = Some v"
  by (cases v) simp_all

lemma fdiv_one: "fdiv v (Suc 0) = v"
  by (cases v) simp_all

lemma mean_single: "mean [v] = Some v"
  by (simp add: mean_def fadd_zero fdiv_one)

lemma mean_Some_nonempty: "mean vs = Some m \<Longrightarrow> vs \<noteq> []"
  by (auto simp: mean_def)

text \<open>The sums and quotients of the example are exact.\<close>

lemma mean_40_60:
  "mean [Finite 40, Finite 60] = Some (Finite 50)" "mean [Finite 60, Finite 40] = Some (Finite 50)"
  by code_simp+

lemma mean_10_12:
  "mean [Finite 10, Finite 12] = Some (Finite 11)" "mean [Finite 12, Finite 10] = Some (Finite 11)"
  by code_simp+

lemma readings_mset: "mset d' = mset d \<Longrightarrow> mset (readings d') = mset (readings d)"
proof -
  assume "mset d' = mset d"
  then have "image_mset (\<lambda>r. mset (reading r)) (mset d') = image_mset (\<lambda>r. mset (reading r)) (mset d)"
    by simp
  then have "sum_mset (image_mset (\<lambda>r. mset (reading r)) (mset d')) =
             sum_mset (image_mset (\<lambda>r. mset (reading r)) (mset d))"
    by simp
  then show ?thesis
    by (simp add: readings_def mset_concat sum_mset_sum_list [symmetric] comp_def)
qed

lemma sort_remdups_set: "set xs = set ys \<Longrightarrow> sort (remdups xs) = sort (remdups ys)"
  by (metis sorted_list_of_set_sort_remdups)

lemma group_values_mset:
  "mset rs' = mset rs \<Longrightarrow> mset (group_values rs' t c) = mset (group_values rs t c)"
  by (simp add: group_values_def)

lemma pivot_table_cong:
  assumes "set (readings d') = set (readings d)"
    and "\<And>t c. group_values (readings d') t c = group_values (readings d) t c"
  shows "pivot_table d' = pivot_table d"
proof -
  have i: "sort (remdups (map fst (readings d'))) = sort (remdups (map fst (readings d)))"
    by (rule sort_remdups_set) (simp add: assms(1))
  have c: "sort (remdups (map (\<lambda>(t, c, v). c) (readings d'))) =
           sort (remdups (map (\<lambda>(t, c, v). c) (readings d)))"
    by (rule sort_remdups_set) (simp add: assms(1))
  show ?thesis
    unfolding pivot_table_def Let_def i c assms(2) ..
qed

lemma index_pivot_table:
  "index (pivot_table d) = map Timestamp (sort (remdups (map fst (readings d))))"
  by (simp add: pivot_table_def Let_def)

lemma columns_pivot_table:
  "columns (pivot_table d) =
     map (\<lambda>c. (c, map (\<lambda>t. mean (group_values (readings d) t c))
                    (sort (remdups (map fst (readings d))))))
       (sort (remdups (map (\<lambda>(t, c, v). c) (readings d))))"
  by (simp add: pivot_table_def Let_def)

lemma map_of_stamped:
  "map_of (zip (map Timestamp ts) (map g ts)) (Timestamp t) =
     (if t \<in> set ts then Some (g t) else None)"
  by (induction ts) auto

lemma map_of_named:
  "map_of (map (\<lambda>c. (c, h c)) cs) c = (if c \<in> set cs then Some (h c) else None)"
  by (induction cs) auto

lemma frame_at_pivot_table:
  "frame_at (pivot_table d) (Timestamp t) c =
     (if c \<in> (\<lambda>(t, c, v). c) ` set (readings d) \<and> t \<in> fst ` set (readings d)
      then Inr (mean (group_values (readings d) t c))
      else Inl KeyError)"
  by (simp add: frame_at_def index_pivot_table columns_pivot_table map_of_named map_of_stamped)

lemma group_values_rows:
  "group_values (readings d) t c =
     concat (map (\<lambda>r. case Value r of Some v \<Rightarrow> [Finite v] | None \<Rightarrow> [])
       (filter (\<lambda>r. ReadingDateTime r = Timestamp t \<and> Species r = Some c) d))"
proof (induction d)
  case Nil
  show ?case by (simp add: readings_def group_values_def)
next
  case (Cons r d)
  have "group_values (readings (r # d)) t c =
          group_values (reading r) t c @ group_values (readings d) t c"
    by (simp add: readings_def group_values_def)
  moreover have "group_values (reading r) t c =
      (if ReadingDateTime r = Timestamp t \<and> Species r = Some c
       then (case Value r of Some v \<Rightarrow> [Finite v] | None \<Rightarrow> []) else [])"
    by (cases "ReadingDateTime r"; cases "Species r"; cases "Value r")
       (auto simp: reading_def group_values_def)
  ultimately show ?case using Cons.IH by simp
qed

lemma concat_present:
  "map Value rs = map Some vs \<Longrightarrow>
     concat (map (\<lambda>r. case Value r of Some v \<Rightarrow> [Finite v] | None \<Rightarrow> []) rs) = map Finite vs"
  by (induction rs arbitrary: vs) auto

lemma group_values_nonempty:
  assumes "group_values rs t c \<noteq> []"
  shows "\<exists>v. (t, c, v) \<in> set rs"
proof -
  from assms have "filter (\<lambda>(t', c', v). t' = t \<and> c' = c) rs \<noteq> []"
    by (simp add: group_values_def)
  then obtain x where "x \<in> set rs" "(\<lambda>(t', c', v). t' = t \<and> c' = c) x"
    by (auto simp: filter_empty_conv)
  then show ?thesis by (cases x) auto
qed

lemma group_values_member:
  "Finite v \<in> set (group_values rs t c) \<longleftrightarrow> (t, c, v) \<in> set rs"
  by (force simp: group_values_def)

lemma set_melt:
  "set (melt df) =
     {(t, Some c, Some v) | t c v col. (c, col) \<in> set (columns df) \<and> (t, Some v) \<in> set (zip (index df) col)}"
proof -
  have inner: "set (concat (map (\<lambda>(t, x). case x of Some v \<Rightarrow> [(t, Some c, Some v)] | None \<Rightarrow> []) zs)) =
      {(t, Some c, Some v) | t v. (t, Some v) \<in> set zs}" for c and zs :: "(timestamp \<times> rat option) list"
    by (induction zs) (auto split: option.splits)
  show ?thesis
    unfolding melt_def by (auto simp: inner)
qed

lemma zip_stamped:
  "zip (map Timestamp ts) (map g ts) = map (\<lambda>t. (Timestamp t, g t)) ts"
  by (induction ts) auto

lemma in_zip_stamped:
  "(x, y) \<in> set (zip (map Timestamp ts) (map g ts)) \<longleftrightarrow> (\<exists>t \<in> set ts. x = Timestamp t \<and> y = g t)"
  by (auto simp: zip_stamped)

lemma in_named:
  "(c, col) \<in> set (map (\<lambda>c. (c, h c)) cs) \<longleftrightarrow> c \<in> set cs \<and> col = h c"
  by auto

lemma in_columns_pivot_table:
  "(c, col) \<in> set (columns (pivot_table d)) \<longleftrightarrow>
     c \<in> (\<lambda>(t, c, v). c) ` set (readings d) \<and>
     col = map (\<lambda>t. mean (group_values (readings d) t c)) (sort (remdups (map fst (readings d))))"
  unfolding columns_pivot_table in_named by simp

lemma set_melt_pivot_table:
  "set (melt (pivot_table d)) =
     {(Timestamp t, Some c, Some m) | t c m.
        t \<in> fst ` set (readings d) \<and> c \<in> (\<lambda>(t, c, v). c) ` set (readings d) \<and>
        mean (group_values (readings d) t c) = Some m}"
proof (intro set_eqI iffI)
  fix x
  assume "x \<in> set (melt (pivot_table d))"
  then obtain t' c v col where x: "x = (t', Some c, Some v)"
    and col: "(c, col) \<in> set (columns (pivot_table d))"
    and z: "(t', Some v) \<in> set (zip (index (pivot_table d)) col)"
    unfolding set_melt by blast
  from col have c: "c \<in> (\<lambda>(t, c, v). c) ` set (readings d)"
    and col': "col = map (\<lambda>t. mean (group_values (readings d) t c)) (sort (remdups (map fst (readings d))))"
    by (simp_all add: in_columns_pivot_table)
  from z obtain t where "t \<in> set (sort (remdups (map fst (readings d))))" "t' = Timestamp t"
    "mean (group_values (readings d) t c) = Some v"
    unfolding index_pivot_table col' in_zip_stamped by fastforce
  then show "x \<in> {(Timestamp t, Some c, Some m) | t c m.
        t \<in> fst ` set (readings d) \<and> c \<in> (\<lambda>(t, c, v). c) ` set (readings d) \<and>
        mean (group_values (readings d) t c) = Some m}"
    using x c by simp
next
  fix x
  assume "x \<in> {(Timestamp t, Some c, Some m) | t c m.
        t \<in> fst ` set (readings d) \<and> c \<in> (\<lambda>(t, c, v). c) ` set (readings d) \<and>
        mean (group_values (readings d) t c) = Some m}"
  then obtain t c m where x: "x = (Timestamp t, Some c, Some m)"
    and t: "t \<in> fst ` set (readings d)" and c: "c \<in> (\<lambda>(t, c, v). c) ` set (readings d)"
    and m: "mean (group_values (readings d) t c) = Some m"
    by blast
  let ?col = "map (\<lambda>t. mean (group_values (readings d) t c)) (sort (remdups (map fst (readings d))))"
  have "(c, ?col) \<in> set (columns (pivot_table d))"
    using c by (simp add: in_columns_pivot_table)
  moreover have "(Timestamp t, Some m) \<in> set (zip (index (pivot_table d)) ?col)"
    unfolding index_pivot_table in_zip_stamped using t m by simp
  ultimately show "x \<in> set (melt (pivot_table d))"
    unfolding set_melt using x by blast
qed

lemma group_values_unique:
  assumes "distinct (map (\<lambda>(t, c, v). (t, c)) rs)" and "(t, c, v) \<in> set rs"
  shows "group_values rs t c = [Finite v]"
  using assms
proof (induction rs)
  case Nil
  then show ?case by simp
next
  case (Cons r rs)
  obtain t' c' v' where r: "r = (t', c', v')" by (cases r)
  from Cons.prems(1) r have nk: "(t', c') \<notin> (\<lambda>(t, c, v). (t, c)) ` set rs"
    and dr: "distinct (map (\<lambda>(t, c, v). (t, c)) rs)"
    by simp_all
  show ?case
  proof (cases "(t, c, v) \<in> set rs")
    case True
    then have "(t, c) \<in> (\<lambda>(t, c, v). (t, c)) ` set rs" by force
    with nk have "\<not> (t' = t \<and> c' = c)" by blast
    moreover have "group_values rs t c = [Finite v]"
      using Cons.IH dr True by simp
    ultimately show ?thesis
      using r by (auto simp: group_values_def)
  next
    case False
    with Cons.prems(2) r have e: "t' = t" "c' = c" "v' = v" by auto
    have "group_values rs t c = []"
    proof (rule ccontr)
      assume "group_values rs t c \<noteq> []"
      then obtain w where "(t, c, w) \<in> set rs" using group_values_nonempty by blast
      then have "(t, c) \<in> (\<lambda>(t, c, v). (t, c)) ` set rs" by force
      with nk e show False by blast
    qed
    then show ?thesis
      using r e by (simp add: group_values_def)
  qed
qed

lemma clean_triples:
  assumes "\<forall>r \<in> set d. \<exists>n c v. triple r = (Timestamp n, Some c, Some (Finite v)) \<and> reading r = [(n, c, v)]"
  shows "map triple d = map (\<lambda>(n, c, v). (Timestamp n, Some c, Some (Finite v))) (readings d)"
  using assms
proof (induction d)
  case Nil
  show ?case by (simp add: readings_def)
next
  case (Cons r d)
  then obtain n c v where "triple r = (Timestamp n, Some c, Some (Finite v))" "reading r = [(n, c, v)]"
    by auto
  moreover have "map triple d = map (\<lambda>(n, c, v). (Timestamp n, Some c, Some (Finite v))) (readings d)"
    using Cons by simp
  ultimately show ?case
    by (simp add: readings_def)
qed

section \<open>Properties of the weekly bins\<close>

lemma weekday_range: "0 \<le> weekday t \<and> weekday t \<le> 6"
  unfolding weekday_def by simp



lemma weekday_normalize: "weekday (normalize t) = weekday t"
  by (simp add: weekday_def normalize_def day_nanos_def)

lemma day_split: "t div day_nanos + 3 = 7 * week_number t + weekday t"
  unfolding week_number_def weekday_def by simp

lemma normalize_week: "normalize t = (7 * week_number t + weekday t - 3) * day_nanos"
  using day_split [of t] by (simp add: normalize_def)

lemma day_nanos_pos: "0 < day_nanos"
  by (simp add: day_nanos_def)

lemma mod7_small: "0 \<le> w \<Longrightarrow> w \<le> 6 \<Longrightarrow> (6 - w) mod 7 = 6 - (w::int)"
  by simp

lemma sub_week_normalize: "sub_week (normalize t) = week_label t - week_nanos"
proof -
  have "(6 - weekday t) mod 7 = 6 - weekday t"
    using weekday_range [of t] by (simp add: mod7_small)
  then show ?thesis
    unfolding sub_week_def weekday_normalize
    by (simp add: normalize_week week_label_def week_nanos_def algebra_simps)
qed

lemma add_week_normalize:
  "add_week (normalize t) = (if weekday t = 6 then week_label t + week_nanos else week_label t)"
proof -
  have "(6 - weekday t) mod 7 = 6 - weekday t"
    using weekday_range [of t] by (simp add: mod7_small)
  then show ?thesis
    unfolding add_week_def weekday_normalize
    by (simp add: normalize_week week_label_def week_nanos_def algebra_simps)
qed

lemma week_number_mono: "s \<le> t \<Longrightarrow> week_number s \<le> week_number t"
  unfolding week_number_def
  by (intro zdiv_mono1) (simp_all add: zdiv_mono1 day_nanos_pos)

lemma date_range_weeks:
  "date_range ((7 * a + 3) * day_nanos) ((7 * b + 3) * day_nanos) =
     map (\<lambda>k. (7 * (a + int k) + 3) * day_nanos) [0 ..< nat (b - a + 1)]"
proof -
  have "((7 * b + 3) * day_nanos - (7 * a + 3) * day_nanos) = (b - a) * week_nanos"
    by (simp add: week_nanos_def algebra_simps)
  moreover have "((b - a) * week_nanos) div week_nanos = b - a"
    by (simp add: week_nanos_def day_nanos_def)
  ultimately have d: "((7 * b + 3) * day_nanos - (7 * a + 3) * day_nanos) div week_nanos = b - a"
    by simp
  have e: "(7 * a + 3) * day_nanos + int k * week_nanos = (7 * (a + int k) + 3) * day_nanos" for k
    by (simp add: week_nanos_def algebra_simps)
  show ?thesis
    unfolding date_range_def d e ..
qed

lemma in_bin_days:
  "in_bin (k * day_nanos) t \<longleftrightarrow> k - 7 < t div day_nanos \<and> t div day_nanos \<le> k"
proof -
  have a: "t \<le> k * day_nanos + day_nanos - 1 \<longleftrightarrow> t div day_nanos \<le> k"
    unfolding day_nanos_def by linarith
  have b: "k * day_nanos - 7 * day_nanos + day_nanos - 1 < t \<longleftrightarrow> k - 7 < t div day_nanos"
    unfolding day_nanos_def by linarith
  show ?thesis
    unfolding in_bin_def bin_edge_def week_nanos_def using a b by simp
qed

lemma in_bin_week_label:
  "in_bin ((7 * w + 3) * day_nanos) t \<longleftrightarrow> week_number t = w"
  unfolding in_bin_days week_number_def by linarith


lemma le_div_day: "k \<le> t div day_nanos \<longleftrightarrow> k * day_nanos \<le> t"
  unfolding day_nanos_def by linarith

lemma ax_min_Min: "ax \<noteq> [] \<Longrightarrow> ax_min ax = Min (set ax)"
proof (cases ax)
  case (Cons t ts)
  then show ?thesis using Min.set_eq_fold [of t ts] by simp
qed simp

lemma ax_max_Max: "ax \<noteq> [] \<Longrightarrow> ax_max ax = Max (set ax)"
proof (cases ax)
  case (Cons t ts)
  then show ?thesis using Max.set_eq_fold [of t ts] by simp
qed simp

lemma ax_min_le: "t \<in> set ax \<Longrightarrow> ax_min ax \<le> t"
proof -
  assume t: "t \<in> set ax"
  then have "ax \<noteq> []" by auto
  then have "ax_min ax = Min (set ax)" by (rule ax_min_Min)
  then show ?thesis using t by simp
qed

lemma ax_max_ge: "t \<in> set ax \<Longrightarrow> t \<le> ax_max ax"
proof -
  assume t: "t \<in> set ax"
  then have "ax \<noteq> []" by auto
  then have "ax_max ax = Max (set ax)" by (rule ax_max_Max)
  then show ?thesis using t by simp
qed

lemma ax_min_le_max: "ax \<noteq> [] \<Longrightarrow> ax_min ax \<le> ax_max ax"
  by (simp add: ax_min_Min ax_max_Max)

lemma week_label_edge:
  "t \<le> bin_edge (week_label t)"
  using in_bin_week_label [of "week_number t" t]
  by (simp add: in_bin_def week_label_def)

lemma edge_is_sunday:
  "t = bin_edge (week_label t) \<Longrightarrow> weekday t = 6"
proof -
  assume "t = bin_edge (week_label t)"
  then have "t = (day_nanos - 1) + (7 * week_number t + 3) * day_nanos"
    by (simp add: bin_edge_def week_label_def)
  then have "t div day_nanos = (day_nanos - 1) div day_nanos + (7 * week_number t + 3)"
    using div_mult_self1 [of day_nanos "day_nanos - 1" "7 * week_number t + 3"] day_nanos_pos
    by (simp add: mult.commute)
  then have "t div day_nanos = 7 * week_number t + 3"
    by (simp add: day_nanos_def)
  then show ?thesis
    by (simp add: weekday_def)
qed

lemma tl_week_grid: "tl (week_grid w n) = week_grid (w + 1) (n - 1)"
proof (cases n)
  case (Suc m)
  have "tl (map f [0 ..< Suc m]) = map (\<lambda>k. f (Suc k)) [0 ..< m]" for f :: "nat \<Rightarrow> int"
    by (simp add: upt_conv_Cons map_Suc_upt [symmetric] del: upt_Suc)
  then show ?thesis
    using Suc by (simp add: week_grid_def algebra_simps del: upt_Suc)
qed (simp add: week_grid_def)

lemma butlast_week_grid: "butlast (week_grid w n) = week_grid w (n - 1)"
  by (cases n) (simp_all add: week_grid_def)

lemma last_week_grid: "0 < n \<Longrightarrow> last (week_grid w n) = (7 * (w + int (n - 1)) + 3) * day_nanos"
  by (simp add: week_grid_def last_map)

lemma time_bins_grid:
  assumes "ax \<noteq> []"
  shows "time_bins ax =
           week_grid (week_number (ax_min ax))
             (nat (week_number (ax_max ax) - week_number (ax_min ax) + 1) +
              (if ax_max ax = bin_edge (week_label (ax_max ax)) then 1 else 0))"
proof -
  let ?lo = "ax_min ax" and ?hi = "ax_max ax"
  let ?a = "week_number ?lo" and ?b = "week_number ?hi"
  have ab: "?a \<le> ?b"
    using ax_min_le_max [OF assms] by (rule week_number_mono)
  have first: "sub_week (normalize ?lo) = (7 * (?a - 1) + 3) * day_nanos"
    by (simp add: sub_week_normalize week_label_def week_nanos_def algebra_simps)
  show ?thesis
  proof (cases "weekday ?hi = 6")
    case False
    then have final: "add_week (normalize ?hi) = (7 * ?b + 3) * day_nanos"
      by (simp add: add_week_normalize week_label_def)
    have ne: "?hi \<noteq> bin_edge (week_label ?hi)"
      using False edge_is_sunday by blast
    have n: "nat (?b - (?a - 1) + 1) = Suc (nat (?b - ?a + 1))"
      using ab by simp
    have binner: "date_range (sub_week (normalize ?lo)) (add_week (normalize ?hi)) =
        week_grid (?a - 1) (Suc (nat (?b - ?a + 1)))"
      unfolding first final date_range_weeks week_grid_def n ..
    have "last (week_grid (?a - 1) (nat (?b - ?a + 1))) = (7 * (?b - 1) + 3) * day_nanos"
      using ab by (simp add: last_week_grid algebra_simps)
    then have lb: "last (butlast (week_grid (?a - 1) (Suc (nat (?b - ?a + 1))))) =
        (7 * (?b - 1) + 3) * day_nanos"
      by (simp add: butlast_week_grid)
    have keep: "\<not> bin_edge ((7 * (?b - 1) + 3) * day_nanos) > ?hi"
    proof -
      have "?hi div day_nanos = 7 * ?b + weekday ?hi - 3"
        using day_split [of ?hi] by simp
      moreover have "0 \<le> weekday ?hi" using weekday_range by simp
      ultimately have "7 * ?b - 3 \<le> ?hi div day_nanos" by simp
      then have "(7 * ?b - 3) * day_nanos \<le> ?hi"
        by (simp only: le_div_day)
      then show ?thesis
        by (simp add: bin_edge_def algebra_simps)
    qed
    have "time_bins ax = tl (week_grid (?a - 1) (Suc (nat (?b - ?a + 1))))"
      unfolding time_bins_def Let_def binner lb using keep by simp
    then show ?thesis
      using ne by (simp add: tl_week_grid)
  next
    case True
    then have final: "add_week (normalize ?hi) = (7 * (?b + 1) + 3) * day_nanos"
      by (simp add: add_week_normalize week_label_def week_nanos_def algebra_simps)
    have n: "nat (?b + 1 - (?a - 1) + 1) = Suc (Suc (nat (?b - ?a + 1)))"
      using ab by simp
    have binner: "date_range (sub_week (normalize ?lo)) (add_week (normalize ?hi)) =
        week_grid (?a - 1) (Suc (Suc (nat (?b - ?a + 1))))"
      unfolding first final date_range_weeks week_grid_def n ..
    have "last (week_grid (?a - 1) (Suc (nat (?b - ?a + 1)))) = week_label ?hi"
      using ab by (simp add: last_week_grid week_label_def algebra_simps)
    then have lb: "last (butlast (week_grid (?a - 1) (Suc (Suc (nat (?b - ?a + 1)))))) =
        week_label ?hi"
      by (simp add: butlast_week_grid)
    have drop: "(bin_edge (week_label ?hi) > ?hi) \<longleftrightarrow> ?hi \<noteq> bin_edge (week_label ?hi)"
      using week_label_edge [of ?hi] by linarith
    have "time_bins ax =
        tl (if ?hi \<noteq> bin_edge (week_label ?hi)
            then butlast (week_grid (?a - 1) (Suc (Suc (nat (?b - ?a + 1)))))
            else week_grid (?a - 1) (Suc (Suc (nat (?b - ?a + 1)))))"
      unfolding time_bins_def Let_def binner lb drop ..
    then show ?thesis
      by (simp add: tl_week_grid butlast_week_grid)
  qed
qed


lemma length_week_grid: "length (week_grid w n) = n"
  by (simp add: week_grid_def)

lemma nth_week_grid: "i < n \<Longrightarrow> week_grid w n ! i = (7 * (w + int i) + 3) * day_nanos"
  by (simp add: week_grid_def)

lemma in_label_window:
  "in_label (Timestamp (k * day_nanos)) t = in_window (k * day_nanos - week_nanos) (k * day_nanos) t"
proof (cases t)
  case NaT
  show ?thesis by (simp add: NaT)
next
  case (Timestamp n)
  have "(k * day_nanos - week_nanos < normalize n) = (k - 7 < n div day_nanos)"
  proof -
    have "k * day_nanos - week_nanos = (k - 7) * day_nanos"
      by (simp add: week_nanos_def algebra_simps)
    then show ?thesis
      using day_nanos_pos by (simp add: normalize_def)
  qed
  moreover have "(normalize n \<le> k * day_nanos) = (n div day_nanos \<le> k)"
    using day_nanos_pos by (simp add: normalize_def)
  ultimately show ?thesis
    by (simp add: Timestamp in_bin_days)
qed

lemma stamps_stamped: "stamps (map Timestamp ts) = ts"
  by (induction ts) (simp_all add: stamps_def)

text \<open>The labels of the resampled pivot.\<close>

lemma resample_stamped:
  assumes "ts \<noteq> []"
  shows "resample_W_mean \<lparr>index = map Timestamp ts, columns = cs\<rparr> =
     Inr \<lparr>index = map Timestamp (time_bins ts),
          columns = map (\<lambda>(c, col).
              (c, map (\<lambda>l. mean (cells_where (in_label l) (map Timestamp ts) col))
                    (map Timestamp (time_bins ts))))
            cs\<rparr>"
proof -
  show ?thesis
    unfolding resample_W_mean_def using assms by (simp add: stamps_stamped)
qed

lemma pivot_table_frame:
  "pivot_table d = \<lparr>index = index (pivot_table d), columns = columns (pivot_table d)\<rparr>"
  by simp

lemma resample_pivot_table:
  "\<exists>w n. resample_W_mean (pivot_table d) =
     Inr \<lparr>index = map Timestamp (week_grid w n),
          columns = map (\<lambda>(c, col).
              (c, map (\<lambda>l. mean (cells_where (in_label l) (index (pivot_table d)) col))
                    (map Timestamp (week_grid w n))))
            (columns (pivot_table d))\<rparr> \<and>
     (n = 0 \<longleftrightarrow> readings d = []) \<and>
     (\<forall>t \<in> fst ` set (readings d). w \<le> week_number t \<and> week_number t < w + int n)"
proof (cases "readings d = []")
  case True
  have "resample_W_mean (pivot_table d) = Inr \<lparr>index = [], columns = []\<rparr>"
    using True by (simp add: resample_W_mean_def index_pivot_table columns_pivot_table)
  moreover have "columns (pivot_table d) = []"
    using True by (simp add: columns_pivot_table)
  ultimately have "resample_W_mean (pivot_table d) =
     Inr \<lparr>index = map Timestamp (week_grid 0 0),
          columns = map (\<lambda>(c, col).
              (c, map (\<lambda>l. mean (cells_where (in_label l) (index (pivot_table d)) col))
                    (map Timestamp (week_grid 0 0))))
            (columns (pivot_table d))\<rparr> \<and>
     ((0::nat) = 0 \<longleftrightarrow> readings d = []) \<and>
     (\<forall>t \<in> fst ` set (readings d). 0 \<le> week_number t \<and> week_number t < 0 + int 0)"
    using True by (simp add: week_grid_def)
  then show ?thesis by (intro exI)
next
  case False
  let ?idx = "sort (remdups (map fst (readings d)))"
  let ?w = "week_number (ax_min ?idx)"
  let ?n = "nat (week_number (ax_max ?idx) - ?w + 1) +
              (if ax_max ?idx = bin_edge (week_label (ax_max ?idx)) then 1 else 0)"
  have "set ?idx \<noteq> {}" using False by simp
  then have ne: "?idx \<noteq> []" by (simp only: set_empty not_False_eq_True)
  have tb: "time_bins ?idx = week_grid ?w ?n"
    by (rule time_bins_grid [OF ne])
  have "resample_W_mean \<lparr>index = index (pivot_table d), columns = columns (pivot_table d)\<rparr> =
     Inr \<lparr>index = map Timestamp (week_grid ?w ?n),
          columns = map (\<lambda>(c, col).
              (c, map (\<lambda>l. mean (cells_where (in_label l) (index (pivot_table d)) col))
                    (map Timestamp (week_grid ?w ?n))))
            (columns (pivot_table d))\<rparr>"
    unfolding index_pivot_table resample_stamped [OF ne] tb ..
  then have 1: "resample_W_mean (pivot_table d) =
     Inr \<lparr>index = map Timestamp (week_grid ?w ?n),
          columns = map (\<lambda>(c, col).
              (c, map (\<lambda>l. mean (cells_where (in_label l) (index (pivot_table d)) col))
                    (map Timestamp (week_grid ?w ?n))))
            (columns (pivot_table d))\<rparr>"
    by (simp only: pivot_table_frame [symmetric])
  have "?w \<le> week_number (ax_max ?idx)"
    by (rule week_number_mono [OF ax_min_le_max [OF ne]])
  then have "?n \<noteq> 0" by simp
  then have 2: "(?n = 0 \<longleftrightarrow> readings d = [])" using False by simp
  have 3: "\<forall>t \<in> fst ` set (readings d). ?w \<le> week_number t \<and> week_number t < ?w + int ?n"
  proof
    fix t
    assume "t \<in> fst ` set (readings d)"
    then have t: "t \<in> set ?idx" by simp
    have "ax_min ?idx \<le> t" using t by (rule ax_min_le)
    moreover have "t \<le> ax_max ?idx" using t by (rule ax_max_ge)
    ultimately have "?w \<le> week_number t" "week_number t \<le> week_number (ax_max ?idx)"
      by (simp_all only: week_number_mono)
    then show "?w \<le> week_number t \<and> week_number t < ?w + int ?n" by simp
  qed
  from 1 2 3 show ?thesis by (intro exI conjI)
qed



lemma in_label_week:
  "in_label (Timestamp ((7 * j + 3) * day_nanos)) =
     in_window ((7 * j + 3) * day_nanos - week_nanos) ((7 * j + 3) * day_nanos)"
  by (rule ext) (rule in_label_window)

lemma cells_where_none: "(\<forall>t \<in> set idx. \<not> P t) \<Longrightarrow> cells_where P idx col = []"
proof -
  assume a: "\<forall>t \<in> set idx. \<not> P t"
  have "(case z of (t, x) \<Rightarrow> case x of Some v \<Rightarrow> if P t then [v] else [] | None \<Rightarrow> []) = []"
    if "z \<in> set (zip idx col)" for z
  proof -
    obtain t x where z: "z = (t, x)" by (cases z)
    with that have "t \<in> set idx" by (auto dest: set_zip_leftD)
    with a z show ?thesis by (simp split: option.splits)
  qed
  then show ?thesis
    unfolding cells_where_def by simp
qed


section \<open>Properties of the flag and of the whole run\<close>

lemma length_resampled_columns:
  assumes "resample_W_mean (pivot_table d) = Inr wm" and "(c, col) \<in> set (columns wm)"
  shows "length col = length (index wm)"
proof -
  from resample_pivot_table [of d] assms(1) obtain w n where
    wm: "wm = \<lparr>index = map Timestamp (week_grid w n),
          columns = map (\<lambda>(c, col).
              (c, map (\<lambda>l. mean (cells_where (in_label l) (index (pivot_table d)) col))
                    (map Timestamp (week_grid w n))))
            (columns (pivot_table d))\<rparr>"
    by auto
  from assms(2) show ?thesis
    unfolding wm by auto
qed

lemma index_resampled:
  assumes "resample_W_mean (pivot_table d) = Inr wm"
  shows "NaT \<notin> set (index wm)"
proof -
  from resample_pivot_table [of d] assms(1) obtain w n where
    "index wm = map Timestamp (week_grid w n)"
    by auto
  then show ?thesis by auto
qed

lemma weekly_mean_table_Inr:
  assumes "weekly_mean_table parse df = Inr out"
  shows "\<exists>d wm nox.
           astype_datetime64 parse (dropna df) = Inr d \<and>
           resample_W_mean (pivot_table d) = Inr wm \<and>
           map_of (columns wm) ''NOX'' = Some nox \<and>
           index out = index wm \<and>
           columns out = AList.update ''Hazardous'' (Boolean (map (\<lambda>v. gt v 50) nox))
                           (map (\<lambda>(c, col). (c, Float64 col)) (columns wm))"
  using assms
  unfolding weekly_mean_table_def add_hazardous_def
  by (auto split: sum.splits option.splits)

lemma map_of_row_at:
  "map_of (row_at out i) c = map_option (\<lambda>col. column_nth col i) (map_of (columns out) c)"
  unfolding row_at_def by (simp add: map_of_map)

lemma flagged_cells:
  assumes "weekly_mean_table parse df = Inr out" and "i < length (index out)"
  shows "\<exists>d wm nox.
           astype_datetime64 parse (dropna df) = Inr d \<and>
           resample_W_mean (pivot_table d) = Inr wm \<and>
           index out = index wm \<and>
           map_of (columns wm) ''NOX'' = Some nox \<and>
           map_of (row_at out i) ''NOX'' = Some (Num (nox ! i)) \<and>
           map_of (row_at out i) ''Hazardous'' = Some (Flag (gt (nox ! i) 50)) \<and>
           (\<forall>c col. c \<noteq> ''Hazardous'' \<and> map_of (columns wm) c = Some col \<longrightarrow>
              map_of (row_at out i) c = Some (Num (col ! i)))"
proof -
  from weekly_mean_table_Inr [OF assms(1)] obtain d wm nox where
    d: "astype_datetime64 parse (dropna df) = Inr d"
    and wm: "resample_W_mean (pivot_table d) = Inr wm"
    and nox: "map_of (columns wm) ''NOX'' = Some nox"
    and idx: "index out = index wm"
    and cols: "columns out = AList.update ''Hazardous'' (Boolean (map (\<lambda>v. gt v 50) nox))
                           (map (\<lambda>(c, col). (c, Float64 col)) (columns wm))"
    by blast
  from nox have "(''NOX'', nox) \<in> set (columns wm)" by (rule map_of_SomeD)
  from length_resampled_columns [OF wm this] have len: "i < length nox"
    using assms(2) idx by simp
  have m: "map_of (columns out) =
      (map_option Float64 \<circ> map_of (columns wm))(''Hazardous'' \<mapsto> Boolean (map (\<lambda>v. gt v 50) nox))"
    unfolding cols by (simp add: update_conv' map_of_map)
  have 1: "map_of (row_at out i) ''NOX'' = Some (Num (nox ! i))"
    by (simp add: map_of_row_at m nox)
  have 2: "map_of (row_at out i) ''Hazardous'' = Some (Flag (gt (nox ! i) 50))"
    using len by (simp add: map_of_row_at m)
  have 3: "\<forall>c col. c \<noteq> ''Hazardous'' \<and> map_of (columns wm) c = Some col \<longrightarrow>
              map_of (row_at out i) c = Some (Num (col ! i))"
    by (simp add: map_of_row_at m)
  from d wm idx nox 1 2 3 show ?thesis by blast
qed

lemma map_of_columns_pivot_table:
  "map_of (columns (pivot_table d)) c =
     (if c \<in> (\<lambda>(t, c, v). c) ` set (readings d)
      then Some (map (\<lambda>t. mean (group_values (readings d) t c))
                  (sort (remdups (map fst (readings d)))))
      else None)"
  by (simp add: columns_pivot_table map_of_named)

lemma cells_where_stamped:
  "cells_where P (map Timestamp ts) (map g ts) =
     concat (map (\<lambda>t. case g t of Some v \<Rightarrow> if P (Timestamp t) then [v] else [] | None \<Rightarrow> []) ts)"
  by (simp add: cells_where_def zip_stamped comp_def)

lemma weekly_column:
  assumes "resample_W_mean (pivot_table d) = Inr wm"
    and "i < length (index wm)" and "index wm ! i = Timestamp l"
  shows "map_of (columns wm) c =
     (if c \<in> (\<lambda>(t, c, v). c) ` set (readings d) then
        Some (map (\<lambda>l. mean (cells_where (in_label l) (index (pivot_table d))
                 (map (\<lambda>t. mean (group_values (readings d) t c))
                    (sort (remdups (map fst (readings d)))))))
              (index wm))
      else None)"
proof -
  from resample_pivot_table [of d] assms(1) obtain w n where
    wm: "wm = \<lparr>index = map Timestamp (week_grid w n),
          columns = map (\<lambda>(c, col).
              (c, map (\<lambda>l. mean (cells_where (in_label l) (index (pivot_table d)) col))
                    (map Timestamp (week_grid w n))))
            (columns (pivot_table d))\<rparr>"
    by auto
  show ?thesis
    unfolding wm frame.simps map_of_map
    by (simp add: map_of_columns_pivot_table)
qed

lemma weekly_cell:
  assumes "resample_W_mean (pivot_table d) = Inr wm"
    and "i < length (index wm)" and "index wm ! i = Timestamp l"
    and "map_of (columns wm) c = Some col"
  shows "col ! i =
     mean (concat (map (\<lambda>t. case mean (group_values (readings d) t c) of
                               Some v \<Rightarrow> if in_bin l t then [v] else []
                             | None \<Rightarrow> [])
                    (sort (remdups (map fst (readings d))))))"
proof -
  from assms(4) weekly_column [OF assms(1-3), of c]
  have "col = map (\<lambda>l. mean (cells_where (in_label l) (index (pivot_table d))
                 (map (\<lambda>t. mean (group_values (readings d) t c))
                    (sort (remdups (map fst (readings d)))))))
              (index wm)"
    by (simp split: if_splits)
  then have "col ! i = mean (cells_where (in_label (Timestamp l)) (index (pivot_table d))
                 (map (\<lambda>t. mean (group_values (readings d) t c))
                    (sort (remdups (map fst (readings d))))))"
    using assms(2,3) by simp
  then show ?thesis
    by (simp add: index_pivot_table cells_where_stamped cong: option.case_cong)
qed

lemma concat_map_empty: "concat (map (\<lambda>x. []) xs) = []"
  by (induction xs) simp_all

lemma sunday_label:
  assumes "normalize l = l" and "weekday l = 6" and "in_bin l t"
  shows "l = week_label t"
proof -
  let ?k = "l div day_nanos"
  let ?j = "(?k + 3) div 7"
  from assms(2) have "(?k + 3) mod 7 = 6" by (simp add: weekday_def)
  then have "?k + 3 = 7 * ?j + 6"
    by (metis mult_div_mod_eq)
  then have "?k = 7 * ?j + 3" by simp
  with assms(1) have l: "l = (7 * ?j + 3) * day_nanos"
    by (simp add: normalize_def)
  with assms(3) have "in_bin ((7 * ?j + 3) * day_nanos) t" by simp
  then have "week_number t = ?j" by (simp only: in_bin_week_label)
  with l show ?thesis by (simp add: week_label_def)
qed

lemma bin_of_reading:
  assumes "resample_W_mean (pivot_table d) = Inr wm" and "t \<in> fst ` set (readings d)"
  shows "\<exists>i < length (index wm). index wm ! i = Timestamp (week_label t)"
proof -
  from resample_pivot_table [of d] assms(1) obtain w n where
    wm: "index wm = map Timestamp (week_grid w n)"
    and span: "\<forall>t \<in> fst ` set (readings d). w \<le> week_number t \<and> week_number t < w + int n"
    by auto
  from span assms(2) have b: "w \<le> week_number t" "week_number t < w + int n" by blast+
  let ?i = "nat (week_number t - w)"
  from b have i: "?i < n" by simp
  from b have "w + int ?i = week_number t" by simp
  then have "index wm ! ?i = Timestamp (week_label t)"
    using i by (simp add: wm length_week_grid nth_week_grid week_label_def)
  then show ?thesis
    using i by (auto simp: wm length_week_grid)
qed

lemma weekly_mean_table_succeeds:
  assumes "astype_datetime64 parse (dropna df) = Inr d"
    and "''NOX'' \<in> (\<lambda>(t, c, v). c) ` set (readings d)"
  shows "\<exists>out. weekly_mean_table parse df = Inr out"
proof -
  from resample_pivot_table [of d] obtain wm where
    wm: "resample_W_mean (pivot_table d) = Inr wm"
    and cols: "columns wm =
      map (\<lambda>(c, col). (c, map (\<lambda>l. mean (cells_where (in_label l) (index (pivot_table d)) col))
                    (index wm)))
            (columns (pivot_table d))"
    by auto
  have "map_of (columns wm) ''NOX'' \<noteq> None"
    unfolding cols map_of_map using assms(2)
    by (simp add: map_of_columns_pivot_table)
  then show ?thesis
    unfolding weekly_mean_table_def add_hazardous_def
    by (auto simp: assms(1) wm)
qed

section \<open>Properties of the order within the groups\<close>

lemma same_groups_mset:
  assumes "\<And>k. filter (\<lambda>r. f r = k) xs = filter (\<lambda>r. f r = k) ys"
  shows "mset xs = mset ys"
proof (rule multiset_eqI)
  fix x
  have e: "filter ((=) x) zs = filter ((=) x) (filter (\<lambda>r. f r = f x) zs)" for zs
  proof -
    have "filter ((=) x) (filter (\<lambda>r. f r = f x) zs) = filter (\<lambda>r. f r = f x \<and> x = r) zs"
      by (simp only: filter_filter)
    also have "\<dots> = filter ((=) x) zs"
      by (rule filter_cong) auto
    finally show ?thesis by (rule sym)
  qed
  have "filter ((=) x) xs = filter ((=) x) (filter (\<lambda>r. f r = f x) xs)"
    by (rule e)
  also have "\<dots> = filter ((=) x) (filter (\<lambda>r. f r = f x) ys)"
    by (simp only: assms)
  also have "\<dots> = filter ((=) x) ys"
    by (rule e [symmetric])
  finally show "count (mset xs) x = count (mset ys) x"
    by (simp add: count_mset count_list_eq_length_filter)
qed

lemma stamped_key:
  assumes "\<not> isl (stamp_row parse r)"
  shows "(ReadingDateTime (projr (stamp_row parse r)) = Timestamp t \<and>
          Species (projr (stamp_row parse r)) = Some c) \<longleftrightarrow>
         group_key parse r = (Some t, Some c)"
  using assms
  by (cases "ReadingDateTime r")
     (auto simp: stamp_row_def group_key_def split: option.splits timestamp.splits)

lemma group_values_stamped:
  assumes "list_all (\<lambda>r. \<not> isl (stamp_row parse r)) xs"
  shows "group_values (readings (map (\<lambda>r. projr (stamp_row parse r)) xs)) t c =
         concat (map (\<lambda>r. case Value r of Some v \<Rightarrow> [Finite v] | None \<Rightarrow> [])
           (filter (\<lambda>r. group_key parse r = (Some t, Some c)) xs))"
proof -
  let ?f = "\<lambda>r. projr (stamp_row parse r)"
  have v: "Value (?f r) = Value r" if "\<not> isl (stamp_row parse r)" for r
    using that by (cases "ReadingDateTime r") (auto simp: stamp_row_def split: option.splits)
  from assms show ?thesis
    unfolding group_values_rows
  proof (induction xs)
    case Nil
    show ?case by simp
  next
    case (Cons r xs)
    then have r: "\<not> isl (stamp_row parse r)" and xs: "list_all (\<lambda>r. \<not> isl (stamp_row parse r)) xs"
      by simp_all
    show ?case
      using Cons.IH [OF xs] stamped_key [OF r, of t c] v [OF r] by simp
  qed
qed

section \<open>Means without rounding\<close>

lemma fsum_exact:
  assumes "\<forall>k. 0 < k \<and> k \<le> length vs \<longrightarrow>
             round64 (s + sum_list (take k vs)) = Finite (s + sum_list (take k vs))"
  shows "fsum (Some (Finite s)) (map Finite vs) = Some (Finite (s + sum_list vs))"
  using assms
proof (induction vs arbitrary: s)
  case Nil
  show ?case by simp
next
  case (Cons v vs)
  from Cons.prems [rule_format, of 1] have 1: "round64 (s + v) = Finite (s + v)" by simp
  have a: "fadd (Finite s) (Finite v) = Some (Finite (s + v))"
    using 1 by simp
  have "\<forall>k. 0 < k \<and> k \<le> length vs \<longrightarrow>
          round64 (s + v + sum_list (take k vs)) = Finite (s + v + sum_list (take k vs))"
  proof (intro allI impI)
    fix k
    assume "0 < k \<and> k \<le> length vs"
    then have "0 < Suc k \<and> Suc k \<le> length (v # vs)" by simp
    from Cons.prems [rule_format, OF this]
    show "round64 (s + v + sum_list (take k vs)) = Finite (s + v + sum_list (take k vs))"
      by (simp add: add.assoc)
  qed
  from Cons.IH [OF this] show ?case
    by (simp add: a add.assoc del: fadd.simps)
qed

lemma mean_exact:
  assumes "vs \<noteq> []"
    and "\<forall>k \<le> length vs. round64 (sum_list (take k vs)) = Finite (sum_list (take k vs))"
    and "round64 (sum_list vs / of_nat (length vs)) = Finite (sum_list vs / of_nat (length vs))"
  shows "mean (map Finite vs) = Some (Finite (sum_list vs / of_nat (length vs)))"
proof -
  have "fsum (Some (Finite 0)) (map Finite vs) = Some (Finite (0 + sum_list vs))"
    by (rule fsum_exact) (use assms(2) in simp)
  then show ?thesis
    using assms(1,3) by (simp add: mean_def)
qed

section \<open>The example table\<close>

lemma example_run:
  "weekly_mean_table example_parse example_df =
     Inr example_out"
  by code_simp

lemma example_clean_run:
  "astype_datetime64 example_parse (dropna example_df) = Inr example_clean"
  by code_simp

lemma example_weekly_run:
  "resample_W_mean (pivot_table example_clean) = Inr example_weekly"
  by code_simp

lemma cancelling_clean_run:
  "astype_datetime64 example_parse (dropna cancelling_df) = Inr cancelling_clean"
  by code_simp

lemma example_roundings:
  "round64 0 = Finite 0" "round64 70 = Finite 70" "round64 150 = Finite 150"
  "round64 (150 / 2) = Finite 75"
  by code_simp+

section \<open>The claims\<close>




text \<open>
  C4. The claim: for every table and every permutation of its rows, the cells give the
  same resampled table on the permuted table as on the table. The mean of a group adds
  the values in the order of the rows, and float64 sums depend on that order: for the
  NOX readings \<open>10 ^ 17\<close>, \<open>151.5\<close> and \<open>- 10 ^ 17\<close> at one time stamp the weekly mean is
  48 and the flag false, and with the last two rows exchanged the mean is 50.5 and the
  flag true.
\<close>

theorem pipeline_order_independent_counterexample:
  "mset cancelling_df_permuted = mset cancelling_df \<and>
   weekly_mean_table example_parse cancelling_df =
     Inr \<lparr>index = [Timestamp 1452384000000000000],
          columns = [(''NOX'', Float64 [Some (Finite 48)]), (''Hazardous'', Boolean [False])]\<rparr> \<and>
   weekly_mean_table example_parse cancelling_df_permuted =
     Inr \<lparr>index = [Timestamp 1452384000000000000],
          columns = [(''NOX'', Float64 [Some (Finite (101 / 2))]),
                     (''Hazardous'', Boolean [True])]\<rparr>"
proof -
  have "mset cancelling_df_permuted = mset cancelling_df"
    by (simp add: cancelling_df_def cancelling_df_permuted_def)
  moreover have "weekly_mean_table example_parse cancelling_df =
     Inr \<lparr>index = [Timestamp 1452384000000000000],
          columns = [(''NOX'', Float64 [Some (Finite 48)]), (''Hazardous'', Boolean [False])]\<rparr>"
    by code_simp
  moreover have "weekly_mean_table example_parse cancelling_df_permuted =
     Inr \<lparr>index = [Timestamp 1452384000000000000],
          columns = [(''NOX'', Float64 [Some (Finite (101 / 2))]),
                     (''Hazardous'', Boolean [True])]\<rparr>"
    by code_simp
  ultimately show ?thesis by (intro conjI)
qed

text \<open>
  C4, as the code has it: a rearrangement of the rows that leaves the rows of every
  group (the rows with one time stamp and one species) in their order is a permutation
  of the table, and the cells give the same result on it as on the table: the same
  frame, or the same error. Every permutation of a table in which no two rows share
  the time stamp and the species is such a rearrangement.
\<close>

theorem pipeline_independent_of_order_between_groups:
  assumes "\<forall>k. filter (\<lambda>r. group_key parse r = k) df' = filter (\<lambda>r. group_key parse r = k) df"
  shows "mset df' = mset df \<and> weekly_mean_table parse df' = weekly_mean_table parse df"
proof -
  let ?f = "\<lambda>r. projr (stamp_row parse r)"
  have m0: "mset df' = mset df"
    by (rule same_groups_mset [of "group_key parse"]) (rule assms [rule_format])
  have g: "filter (\<lambda>r. group_key parse r = k) (dropna df') =
           filter (\<lambda>r. group_key parse r = k) (dropna df)" for k
  proof -
    have c: "filter (\<lambda>r. group_key parse r = k) (dropna zs) =
          dropna (filter (\<lambda>r. group_key parse r = k) zs)" for zs
      by (simp add: dropna_def conj_commute)
    show ?thesis unfolding c assms [rule_format] ..
  qed
  have m: "mset (dropna df') = mset (dropna df)"
    by (rule same_groups_mset [of "group_key parse"]) (rule g)
  then have "set (dropna df') = set (dropna df)" by (rule mset_eq_setD)
  then have s: "list_all P (dropna df') = list_all P (dropna df)" for P
    by (simp add: list_all_iff)
  have p: "pivot_table (map ?f (dropna df')) = pivot_table (map ?f (dropna df))"
    if ok: "list_all (\<lambda>r. \<not> isl (stamp_row parse r)) (dropna df)"
  proof (rule pivot_table_cong)
    have "mset (map ?f (dropna df')) = mset (map ?f (dropna df))"
      using m by simp
    then have "mset (readings (map ?f (dropna df'))) = mset (readings (map ?f (dropna df)))"
      by (rule readings_mset)
    then show "set (readings (map ?f (dropna df'))) = set (readings (map ?f (dropna df)))"
      by (rule mset_eq_setD)
  next
    fix t c
    from ok have ok': "list_all (\<lambda>r. \<not> isl (stamp_row parse r)) (dropna df')"
      by (simp only: s)
    show "group_values (readings (map ?f (dropna df'))) t c =
          group_values (readings (map ?f (dropna df))) t c"
      unfolding group_values_stamped [OF ok] group_values_stamped [OF ok'] g ..
  qed
  have "weekly_mean_table parse df' = weekly_mean_table parse df"
  proof (cases "list_all (\<lambda>r. \<not> isl (stamp_row parse r)) (dropna df)")
    case True
    then show ?thesis
      unfolding weekly_mean_table_def astype_datetime64_eq s
      by (simp add: p)
  next
    case False
    then show ?thesis
      unfolding weekly_mean_table_def astype_datetime64_eq s
      by simp
  qed
  with m0 show ?thesis ..
qed

theorem pipeline_independent_of_order_between_groups_witness:
  "(\<forall>k. filter (\<lambda>r. group_key example_parse r = k) example_df_exchanged =
        filter (\<lambda>r. group_key example_parse r = k) example_df) \<and>
   example_df_exchanged \<noteq> example_df \<and>
   mset example_df_exchanged = mset example_df \<and>
   weekly_mean_table example_parse example_df_exchanged = Inr example_out"
proof -
  have h: "\<forall>k. filter (\<lambda>r. group_key example_parse r = k) example_df_exchanged =
        filter (\<lambda>r. group_key example_parse r = k) example_df"
    by (auto simp: example_df_def example_df_exchanged_def example_row_def group_key_def
          example_parse_def)
  have n: "example_df_exchanged \<noteq> example_df"
    by (simp add: example_df_def example_df_exchanged_def example_row_def)
  from pipeline_independent_of_order_between_groups [OF h] example_run
  have "mset example_df_exchanged = mset example_df \<and>
        weekly_mean_table example_parse example_df_exchanged = Inr example_out"
    by simp
  with h n show ?thesis by blast
qed


text \<open>
  C5. Dropping the rows with a missing cell is idempotent: dropping again from a cleaned
  table leaves its rows, and so their number, as they are.
\<close>

theorem dropna_idempotent:
  "dropna (dropna df) = dropna df \<and> length (dropna (dropna df)) = length (dropna df)"
  by (simp add: dropna_def)

text \<open>
  C9. The claim: when several surviving records share a time stamp and a species, the
  cell of the wide table for the pair is the arithmetic mean of their values. The cell
  is their mean in float64 arithmetic: for the NOX readings \<open>10 ^ 17\<close>, \<open>151.5\<close> and
  \<open>- 10 ^ 17\<close> at one time stamp the cell is 48, and their arithmetic mean is 50.5.
\<close>

theorem pivot_table_mean_of_duplicates_counterexample:
  "astype_datetime64 example_parse (dropna cancelling_df) = Inr cancelling_clean \<and>
   map Value
     (filter (\<lambda>r. ReadingDateTime r = Timestamp 1451865600000000000 \<and> Species r = Some ''NOX'')
        cancelling_clean) =
     map Some [100000000000000000, 303 / 2, - 100000000000000000] \<and>
   frame_at (pivot_table cancelling_clean) (Timestamp 1451865600000000000) ''NOX'' =
     Inr (Some (Finite 48)) \<and>
   sum_list [100000000000000000, 303 / 2, - 100000000000000000] /
     of_nat (length [100000000000000000, 303 / 2, - 100000000000000000 :: rat]) = (101 / 2 :: rat)"
proof -
  have "map Value
     (filter (\<lambda>r. ReadingDateTime r = Timestamp 1451865600000000000 \<and> Species r = Some ''NOX'')
        cancelling_clean) =
     map Some [100000000000000000, 303 / 2, - 100000000000000000]"
    by (simp add: cancelling_clean_def example_stamped_def)
  moreover have "frame_at (pivot_table cancelling_clean) (Timestamp 1451865600000000000) ''NOX'' =
     Inr (Some (Finite 48))"
    by code_simp
  moreover have "sum_list [100000000000000000, 303 / 2, - 100000000000000000] /
     of_nat (length [100000000000000000, 303 / 2, - 100000000000000000 :: rat]) = (101 / 2 :: rat)"
    by simp
  ultimately show ?thesis
    using cancelling_clean_run by (intro conjI)
qed

text \<open>
  C9, as the code has it: when several surviving records share a time stamp and a
  species, the wide table does not keep them apart: it has one row for the time stamp
  and one column for the species, and one cell there, computed from the values of all
  those records in float64 arithmetic. The cell is their arithmetic mean whenever the
  sum of the first \<open>k\<close> values in the order of the rows, for every \<open>k\<close>, and the
  quotient of the whole sum by their number are float64 numbers, so that nothing is
  rounded.
\<close>

theorem pivot_table_float_mean_of_duplicates:
  assumes "astype_datetime64 parse (dropna df) = Inr d"
    and "rs = filter (\<lambda>r. ReadingDateTime r = Timestamp t \<and> Species r = Some c) d"
    and "rs \<noteq> []"
  shows "\<exists>vs. map Value rs = map Some vs \<and>
           (\<exists>x. frame_at (pivot_table d) (Timestamp t) c = Inr x) \<and>
           distinct (index (pivot_table d)) \<and>
           distinct (map fst (columns (pivot_table d))) \<and>
           ((\<forall>k \<le> length vs. round64 (sum_list (take k vs)) = Finite (sum_list (take k vs))) \<and>
            round64 (sum_list vs / of_nat (length vs)) = Finite (sum_list vs / of_nat (length vs)) \<longrightarrow>
            frame_at (pivot_table d) (Timestamp t) c =
              Inr (Some (Finite (sum_list vs / of_nat (length vs)))))"
proof -
  have "\<exists>v. Value r = Some v" if "r \<in> set rs" for r
  proof -
    from that assms(2) have "r \<in> set d" by simp
    from clean_rows [OF assms(1) this] show ?thesis by auto
  qed
  then have "\<exists>vs. map Value rs = map Some vs"
  proof (induction rs)
    case Nil
    show ?case by simp
  next
    case (Cons r rs)
    then obtain v vs where "Value r = Some v" "map Value rs = map Some vs"
      by (metis list.set_intros(1) list.set_intros(2))
    then have "map Value (r # rs) = map Some (v # vs)" by simp
    then show ?case by blast
  qed
  then obtain vs where vs: "map Value rs = map Some vs" ..
  have g: "group_values (readings d) t c = map Finite vs"
    using concat_present [OF vs] by (simp add: group_values_rows assms(2))
  have ne: "vs \<noteq> []"
    using vs assms(3) by auto
  then obtain v where "v \<in> set vs" by (cases vs) auto
  then have "Finite v \<in> set (group_values (readings d) t c)"
    by (simp add: g)
  then have "(t, c, v) \<in> set (readings d)"
    by (simp only: group_values_member)
  then have "c \<in> (\<lambda>(t, c, v). c) ` set (readings d)" and "t \<in> fst ` set (readings d)"
    by force+
  then have cell: "frame_at (pivot_table d) (Timestamp t) c = Inr (mean (map Finite vs))"
    by (simp add: frame_at_pivot_table g)
  then have "\<exists>x. frame_at (pivot_table d) (Timestamp t) c = Inr x" ..
  moreover have "distinct (index (pivot_table d))"
    by (simp add: index_pivot_table distinct_map inj_on_def)
  moreover have "distinct (map fst (columns (pivot_table d)))"
    by (simp add: columns_pivot_table comp_def)
  moreover have "frame_at (pivot_table d) (Timestamp t) c =
      Inr (Some (Finite (sum_list vs / of_nat (length vs))))"
    if "(\<forall>k \<le> length vs. round64 (sum_list (take k vs)) = Finite (sum_list (take k vs))) \<and>
        round64 (sum_list vs / of_nat (length vs)) = Finite (sum_list vs / of_nat (length vs))"
    using that cell mean_exact [OF ne] by simp
  ultimately show ?thesis using vs by blast
qed

theorem pivot_table_float_mean_of_duplicates_witness:
  "astype_datetime64 example_parse (dropna example_df) = Inr example_clean \<and>
   filter (\<lambda>r. ReadingDateTime r = Timestamp 1453208400000000000 \<and> Species r = Some ''NOX'')
     example_clean =
     [example_stamped 1453208400000000000 ''NOX'' 70,
      example_stamped 1453208400000000000 ''NOX'' 80] \<and>
   round64 70 = Finite 70 \<and> round64 150 = Finite 150 \<and> round64 (150 / 2) = Finite 75 \<and>
   frame_at (pivot_table example_clean) (Timestamp 1453208400000000000) ''NOX'' =
     Inr (Some (Finite 75))"
proof -
  let ?rs = "[example_stamped 1453208400000000000 ''NOX'' 70,
              example_stamped 1453208400000000000 ''NOX'' 80]"
  have f: "?rs = filter (\<lambda>r. ReadingDateTime r = Timestamp 1453208400000000000 \<and>
      Species r = Some ''NOX'') example_clean"
    by (simp add: example_clean_def example_stamped_def)
  have ne: "?rs \<noteq> []" by simp
  from pivot_table_float_mean_of_duplicates [OF example_clean_run f ne]
  obtain vs where v: "map Value ?rs = map Some vs"
    and c: "(\<forall>k \<le> length vs. round64 (sum_list (take k vs)) = Finite (sum_list (take k vs))) \<and>
            round64 (sum_list vs / of_nat (length vs)) = Finite (sum_list vs / of_nat (length vs)) \<longrightarrow>
            frame_at (pivot_table example_clean) (Timestamp 1453208400000000000) ''NOX'' =
              Inr (Some (Finite (sum_list vs / of_nat (length vs))))"
    by blast
  from v have vs: "vs = [70, 80]"
    by (auto simp: example_stamped_def)
  have "round64 (sum_list (take k [70, 80])) = Finite (sum_list (take k [70, 80]))"
    if "k \<le> 2" for k
  proof -
    from that have "k = 0 \<or> k = 1 \<or> k = 2" by auto
    then show ?thesis
      using example_roundings by auto
  qed
  with c have "frame_at (pivot_table example_clean) (Timestamp 1453208400000000000) ''NOX'' =
      Inr (Some (Finite 75))"
    unfolding vs using example_roundings by simp
  then show ?thesis
    using example_clean_run f example_roundings by simp
qed

text \<open>
  C3. The claim: for every table, pivoting and then unpivoting keeps every triple (time
  stamp, species, value) that is present after the missing rows are dropped. In the
  example two surviving records give NOX at the same time stamp, with the values 70 and
  80: the pivot holds their mean, and neither triple comes back. And a record whose date
  is the text \<^verbatim>\<open>NaT\<close> is no missing row and survives, its date becomes the missing time
  stamp, and the pivot leaves the record out.
\<close>

theorem pivot_melt_roundtrip_counterexample:
  "astype_datetime64 example_parse (dropna example_df) = Inr example_clean \<and>
   (Timestamp 1453208400000000000, Some ''NOX'', Some (Finite 70)) \<in> set (map triple example_clean) \<and>
   (Timestamp 1453208400000000000, Some ''NOX'', Some (Finite 70)) \<notin> set (melt (pivot_table example_clean)) \<and>
   (Timestamp 1453208400000000000, Some ''NOX'', Some (Finite 75)) \<in> set (melt (pivot_table example_clean)) \<and>
   astype_datetime64 example_parse (dropna [example_row ''NaT'' ''NOX'' 40]) =
     Inr [example_stamped_nat ''NOX'' 40] \<and>
   map triple [example_stamped_nat ''NOX'' 40] = [(NaT, Some ''NOX'', Some (Finite 40))] \<and>
   melt (pivot_table [example_stamped_nat ''NOX'' 40]) = []"
  by code_simp

text \<open>
  C3, as the code has it: when no two surviving records share both the time stamp and
  the species, and the date of every surviving record is a time stamp, pivoting and then
  unpivoting gives exactly the triples of the surviving records.
\<close>

theorem pivot_melt_roundtrip:
  assumes "astype_datetime64 parse (dropna df) = Inr d"
    and "distinct (map (\<lambda>r. (ReadingDateTime r, Species r)) d)"
    and "NaT \<notin> ReadingDateTime ` set d"
  shows "set (melt (pivot_table d)) = set (map triple d)"
proof -
  let ?rs = "readings d"
  have "\<exists>n c v. triple r = (Timestamp n, Some c, Some (Finite v)) \<and> reading r = [(n, c, v)]"
    if "r \<in> set d" for r
  proof -
    from that assms(3) have "ReadingDateTime r \<noteq> NaT" by force
    with clean_stamped_rows [OF assms(1) that] show ?thesis by blast
  qed
  then have tr: "map triple d = map (\<lambda>(n, c, v). (Timestamp n, Some c, Some (Finite v))) ?rs"
    by (intro clean_triples) blast
  have "map (\<lambda>r. (ReadingDateTime r, Species r)) d = map (\<lambda>(a, b, c). (a, b)) (map triple d)"
    by (simp add: triple_def)
  also have "\<dots> = map (\<lambda>(n, c). (Timestamp n, Some c)) (map (\<lambda>(t, c, v). (t, c)) ?rs)"
    unfolding tr by (simp add: case_prod_beta)
  finally have "distinct (map (\<lambda>(n, c). (Timestamp n, Some c)) (map (\<lambda>(t, c, v). (t, c)) ?rs))"
    using assms(2) by simp
  then have dk: "distinct (map (\<lambda>(t, c, v). (t, c)) ?rs)"
    by (simp only: distinct_map)
  have "set (melt (pivot_table d)) = (\<lambda>(n, c, v). (Timestamp n, Some c, Some (Finite v))) ` set ?rs"
  proof (intro set_eqI iffI)
    fix x
    assume "x \<in> set (melt (pivot_table d))"
    then obtain t c m where x: "x = (Timestamp t, Some c, Some m)"
      and m: "mean (group_values ?rs t c) = Some m"
      unfolding set_melt_pivot_table by blast
    from m have "group_values ?rs t c \<noteq> []" by (rule mean_Some_nonempty)
    then obtain v where v: "(t, c, v) \<in> set ?rs" using group_values_nonempty by blast
    from group_values_unique [OF dk v] m have "m = Finite v" by (simp add: mean_single)
    with v x show "x \<in> (\<lambda>(n, c, v). (Timestamp n, Some c, Some (Finite v))) ` set ?rs" by force
  next
    fix x
    assume "x \<in> (\<lambda>(n, c, v). (Timestamp n, Some c, Some (Finite v))) ` set ?rs"
    then obtain t c v where x: "x = (Timestamp t, Some c, Some (Finite v))"
      and v: "(t, c, v) \<in> set ?rs"
      by auto
    from group_values_unique [OF dk v] have "mean (group_values ?rs t c) = Some (Finite v)"
      by (simp add: mean_single)
    moreover from v have "t \<in> fst ` set ?rs" "c \<in> (\<lambda>(t, c, v). c) ` set ?rs" by force+
    ultimately show "x \<in> set (melt (pivot_table d))"
      unfolding set_melt_pivot_table using x by blast
  qed
  then show ?thesis by (simp add: tr)
qed

theorem pivot_melt_roundtrip_witness:
  "astype_datetime64 example_parse (dropna (take 4 example_df)) = Inr (take 4 example_clean) \<and>
   distinct (map (\<lambda>r. (ReadingDateTime r, Species r)) (take 4 example_clean)) \<and>
   NaT \<notin> ReadingDateTime ` set (take 4 example_clean) \<and>
   set (melt (pivot_table (take 4 example_clean))) =
     {(Timestamp 1451865600000000000, Some ''NOX'', Some (Finite 40)),
      (Timestamp 1451865600000000000, Some ''PM10'', Some (Finite 10)),
      (Timestamp 1451952000000000000, Some ''NOX'', Some (Finite 60)),
      (Timestamp 1451952000000000000, Some ''PM10'', Some (Finite 12))}"
proof -
  have r: "astype_datetime64 example_parse (dropna (take 4 example_df)) = Inr (take 4 example_clean)"
    by code_simp
  have d: "distinct (map (\<lambda>r. (ReadingDateTime r, Species r)) (take 4 example_clean))"
    by (simp add: example_clean_def example_stamped_def)
  have n: "NaT \<notin> ReadingDateTime ` set (take 4 example_clean)"
    by (simp add: example_clean_def example_stamped_def)
  have "set (map triple (take 4 example_clean)) =
     {(Timestamp 1451865600000000000, Some ''NOX'', Some (Finite 40)),
      (Timestamp 1451865600000000000, Some ''PM10'', Some (Finite 10)),
      (Timestamp 1451952000000000000, Some ''NOX'', Some (Finite 60)),
      (Timestamp 1451952000000000000, Some ''PM10'', Some (Finite 12))}"
    by (simp add: example_clean_def example_stamped_def triple_def)
  with pivot_melt_roundtrip [OF r d n] show ?thesis
    using r d n by simp
qed



text \<open>
  C7. The resampled table has one row for each weekly bin from the bin of the first
  time stamp on: consecutive labels are exactly a week apart (so they increase and leave
  no gap), no label occurs twice, the time stamp of every reading lies in the bin of
  some row, and a row whose bin holds no reading has a missing value in every column.
\<close>

theorem resample_buckets_contiguous:
  assumes "resample_W_mean (pivot_table d) = Inr wm"
  shows "(\<forall>i. Suc i < length (index wm) \<longrightarrow>
            (\<exists>l. index wm ! i = Timestamp l \<and> index wm ! Suc i = Timestamp (l + week_nanos))) \<and>
         distinct (index wm) \<and>
         (\<forall>t \<in> fst ` set (readings d). \<exists>i < length (index wm). \<exists>l.
            index wm ! i = Timestamp l \<and> in_window (l - week_nanos) l (Timestamp t)) \<and>
         (\<forall>i < length (index wm). \<forall>l.
            index wm ! i = Timestamp l \<and>
            (\<forall>t \<in> fst ` set (readings d). \<not> in_window (l - week_nanos) l (Timestamp t)) \<longrightarrow>
            (\<forall>(c, col) \<in> set (columns wm). col ! i = None))"
proof -
  from resample_pivot_table [of d] assms(1) obtain w n where
    wm: "wm = \<lparr>index = map Timestamp (week_grid w n),
          columns = map (\<lambda>(c, col).
              (c, map (\<lambda>l. mean (cells_where (in_label l) (index (pivot_table d)) col))
                    (map Timestamp (week_grid w n))))
            (columns (pivot_table d))\<rparr>"
    and span: "\<forall>t \<in> fst ` set (readings d). w \<le> week_number t \<and> week_number t < w + int n"
    by auto
  have len: "length (index wm) = n" by (simp add: wm length_week_grid)
  have nth: "index wm ! i = Timestamp ((7 * (w + int i) + 3) * day_nanos)" if "i < n" for i
    using that by (simp add: wm length_week_grid nth_week_grid)
  have 1: "\<forall>i. Suc i < length (index wm) \<longrightarrow>
            (\<exists>l. index wm ! i = Timestamp l \<and> index wm ! Suc i = Timestamp (l + week_nanos))"
  proof (intro allI impI)
    fix i
    assume "Suc i < length (index wm)"
    then have "i < n" "Suc i < n" by (simp_all add: len)
    then have "index wm ! i = Timestamp ((7 * (w + int i) + 3) * day_nanos)"
      and "index wm ! Suc i = Timestamp ((7 * (w + int i) + 3) * day_nanos + week_nanos)"
      by (simp_all add: nth week_nanos_def algebra_simps)
    then show "\<exists>l. index wm ! i = Timestamp l \<and> index wm ! Suc i = Timestamp (l + week_nanos)"
      by blast
  qed
  have "inj_on (\<lambda>k. (7 * (w + int k) + 3) * day_nanos) {0 ..< n}"
    using day_nanos_pos by (auto simp: inj_on_def)
  then have 2: "distinct (index wm)"
    by (simp add: wm week_grid_def distinct_map inj_on_def)
  have 3: "\<forall>t \<in> fst ` set (readings d). \<exists>i < length (index wm). \<exists>l.
            index wm ! i = Timestamp l \<and> in_window (l - week_nanos) l (Timestamp t)"
  proof
    fix t
    assume "t \<in> fst ` set (readings d)"
    with span have b: "w \<le> week_number t" "week_number t < w + int n" by blast+
    let ?i = "nat (week_number t - w)"
    let ?l = "(7 * week_number t + 3) * day_nanos"
    from b have i: "?i < n" by simp
    from b have "w + int ?i = week_number t" by simp
    with nth [OF i] have "index wm ! ?i = Timestamp ?l" by simp
    moreover have "in_label (Timestamp ?l) (Timestamp t)"
      by (simp add: in_bin_week_label)
    then have "in_window (?l - week_nanos) ?l (Timestamp t)"
      by (simp only: in_label_week)
    ultimately show "\<exists>i < length (index wm). \<exists>l.
            index wm ! i = Timestamp l \<and> in_window (l - week_nanos) l (Timestamp t)"
      using i len by blast
  qed
  have 4: "\<forall>i < length (index wm). \<forall>l.
            index wm ! i = Timestamp l \<and>
            (\<forall>t \<in> fst ` set (readings d). \<not> in_window (l - week_nanos) l (Timestamp t)) \<longrightarrow>
            (\<forall>(c, col) \<in> set (columns wm). col ! i = None)"
  proof (intro allI impI ballI)
    fix i l x
    assume i: "i < length (index wm)"
      and h: "index wm ! i = Timestamp l \<and>
            (\<forall>t \<in> fst ` set (readings d). \<not> in_window (l - week_nanos) l (Timestamp t))"
      and x: "x \<in> set (columns wm)"
    from i have i': "i < n" by (simp add: len)
    let ?l = "(7 * (w + int i) + 3) * day_nanos"
    from h nth [OF i'] have l: "l = ?l" by simp
    have lab: "week_grid w n ! i = l"
      using i' by (simp only: l nth_week_grid)
    have "\<forall>t' \<in> set (index (pivot_table d)). \<not> in_label (Timestamp l) t'"
    proof
      fix t'
      assume "t' \<in> set (index (pivot_table d))"
      then obtain t where t': "t' = Timestamp t" and t: "t \<in> fst ` set (readings d)"
        by (auto simp: index_pivot_table)
      from h t have "\<not> in_window (l - week_nanos) l (Timestamp t)" by blast
      then show "\<not> in_label (Timestamp l) t'"
        unfolding l in_label_week t' .
    qed
    then have e: "cells_where (in_label (Timestamp l)) (index (pivot_table d)) col = []" for col
      by (rule cells_where_none)
    from x obtain c col where
      "x = (c, map (\<lambda>l. mean (cells_where (in_label l) (index (pivot_table d)) col))
                    (map Timestamp (week_grid w n)))"
      by (auto simp: wm)
    then show "case x of (c, col) \<Rightarrow> col ! i = None"
      using i' by (simp add: length_week_grid lab e)
  qed
  from 1 2 3 4 show ?thesis by (intro conjI)
qed

theorem resample_buckets_contiguous_witness:
  "resample_W_mean (pivot_table example_clean) = Inr example_weekly \<and>
   index example_weekly =
     [Timestamp 1452384000000000000, Timestamp (1452384000000000000 + week_nanos),
      Timestamp (1452384000000000000 + week_nanos + week_nanos)] \<and>
   distinct (index example_weekly) \<and>
   in_window (1452384000000000000 - week_nanos) 1452384000000000000
     (Timestamp 1451865600000000000) \<and>
   map_of (columns example_weekly) ''NOX'' = Some [Some (Finite 50), None, Some (Finite 75)] \<and>
   [Some (Finite 50), None, Some (Finite 75)] ! 1 = (None :: float64 option)"
proof -
  note t = resample_buckets_contiguous [OF example_weekly_run]
  have rs: "readings example_clean =
      [(1451865600000000000, ''NOX'', 40), (1451865600000000000, ''PM10'', 10),
       (1451952000000000000, ''NOX'', 60), (1451952000000000000, ''PM10'', 12),
       (1453208400000000000, ''NOX'', 70), (1453208400000000000, ''NOX'', 80)]"
    by (simp add: example_clean_def example_stamped_def readings_def reading_def)
  from t have d: "distinct (index example_weekly)"
    by blast
  have i: "1 < length (index example_weekly)"
    and l: "index example_weekly ! 1 = Timestamp 1452988800000000000"
    by (simp_all add: example_weekly_def)
  have none: "\<forall>t \<in> fst ` set (readings example_clean).
      \<not> in_window (1452988800000000000 - week_nanos) 1452988800000000000 (Timestamp t)"
    unfolding rs by (simp add: normalize_def week_nanos_def day_nanos_def)
  have c: "(''NOX'', [Some (Finite 50), None, Some (Finite 75)]) \<in> set (columns example_weekly)"
    by (simp add: example_weekly_def)
  from t i l none have "\<forall>(c, col) \<in> set (columns example_weekly). col ! 1 = None"
    by blast
  with c have e: "[Some (Finite 50), None, Some (Finite 75)] ! 1 = (None :: float64 option)"
    by blast
  have "index example_weekly =
     [Timestamp 1452384000000000000, Timestamp (1452384000000000000 + week_nanos),
      Timestamp (1452384000000000000 + week_nanos + week_nanos)]"
    by (simp add: example_weekly_def week_nanos_def day_nanos_def)
  moreover have "in_window (1452384000000000000 - week_nanos) 1452384000000000000
     (Timestamp 1451865600000000000)"
    by (simp add: normalize_def week_nanos_def day_nanos_def)
  moreover have "map_of (columns example_weekly) ''NOX'' = Some [Some (Finite 50), None, Some (Finite 75)]"
    by (simp add: example_weekly_def)
  ultimately show ?thesis
    using example_weekly_run d e by (intro conjI)
qed

text \<open>
  C8. For every table with at least one fully populated row, the table that the cells
  produce has no row whose time stamp is missing: \<^verbatim>\<open>NaT\<close> is not in its index.
\<close>

theorem no_missing_timestamp:
  assumes "weekly_mean_table parse df = Inr out" and "\<exists>r \<in> set df. notna r"
  shows "NaT \<notin> set (index out)"
proof -
  from weekly_mean_table_Inr [OF assms(1)] obtain d wm where
    "resample_W_mean (pivot_table d) = Inr wm" "index out = index wm"
    by blast
  then show ?thesis
    using index_resampled by simp
qed

theorem no_missing_timestamp_witness:
  "weekly_mean_table example_parse example_df = Inr example_out \<and>
   (\<exists>r \<in> set example_df. notna r) \<and>
   NaT \<notin> set (index example_out)"
proof -
  have h: "\<exists>r \<in> set example_df. notna r"
    by (simp add: example_df_def example_row_def notna_def)
  from no_missing_timestamp [OF example_run h] show ?thesis
    using example_run h by simp
qed

text \<open>
  C10. In every row of the result whose NOX mean is missing, the flag \<^verbatim>\<open>Hazardous\<close> is
  false; and the NOX mean of a row is missing, and so its flag false, whenever no
  surviving NOX reading has its time stamp in the bin of the row.
\<close>

theorem missing_aggregate_not_hazardous:
  assumes "weekly_mean_table parse df = Inr out" and "i < length (index out)"
  shows "(map_of (row_at out i) ''NOX'' = Some (Num None) \<longrightarrow>
            map_of (row_at out i) ''Hazardous'' = Some (Flag False)) \<and>
         (\<forall>d l. astype_datetime64 parse (dropna df) = Inr d \<and> index out ! i = Timestamp l \<and>
                 (\<forall>t v. (t, ''NOX'', v) \<in> set (readings d) \<longrightarrow> \<not> in_bin l t) \<longrightarrow>
            map_of (row_at out i) ''NOX'' = Some (Num None) \<and>
            map_of (row_at out i) ''Hazardous'' = Some (Flag False))"
proof -
  from flagged_cells [OF assms] obtain d wm nox where
    d: "astype_datetime64 parse (dropna df) = Inr d"
    and wm: "resample_W_mean (pivot_table d) = Inr wm"
    and idx: "index out = index wm"
    and nox: "map_of (columns wm) ''NOX'' = Some nox"
    and c1: "map_of (row_at out i) ''NOX'' = Some (Num (nox ! i))"
    and c2: "map_of (row_at out i) ''Hazardous'' = Some (Flag (gt (nox ! i) 50))"
    by blast
  have 1: "map_of (row_at out i) ''NOX'' = Some (Num None) \<longrightarrow>
            map_of (row_at out i) ''Hazardous'' = Some (Flag False)"
    using c1 c2 by simp
  have 2: "map_of (row_at out i) ''NOX'' = Some (Num None) \<and>
           map_of (row_at out i) ''Hazardous'' = Some (Flag False)"
    if h: "astype_datetime64 parse (dropna df) = Inr d' \<and> index out ! i = Timestamp l \<and>
           (\<forall>t v. (t, ''NOX'', v) \<in> set (readings d') \<longrightarrow> \<not> in_bin l t)" for d' l
  proof -
    from h d have d': "d' = d" by simp
    from h have l: "index wm ! i = Timestamp l" by (simp add: idx)
    from assms(2) have i: "i < length (index wm)" by (simp add: idx)
    have "(case mean (group_values (readings d) t ''NOX'') of
             Some v \<Rightarrow> if in_bin l t then [v] else [] | None \<Rightarrow> []) = []" for t
    proof (cases "in_bin l t")
      case True
      have "group_values (readings d) t ''NOX'' = []"
      proof (rule ccontr)
        assume "group_values (readings d) t ''NOX'' \<noteq> []"
        then obtain v where "(t, ''NOX'', v) \<in> set (readings d)"
          using group_values_nonempty by blast
        with h d' True show False by blast
      qed
      then show ?thesis by (simp add: mean_Nil)
    next
      case False
      then show ?thesis by (simp split: option.splits)
    qed
    then have "nox ! i = None"
      unfolding weekly_cell [OF wm i l nox] by (simp add: concat_map_empty)
    with c1 c2 show ?thesis by simp
  qed
  from 1 2 show ?thesis by blast
qed

theorem missing_aggregate_not_hazardous_witness:
  "weekly_mean_table example_parse example_df = Inr example_out \<and>
   1 < length (index example_out) \<and>
   astype_datetime64 example_parse (dropna example_df) = Inr example_clean \<and>
   index example_out ! 1 = Timestamp 1452988800000000000 \<and>
   map_of (row_at example_out 1) ''NOX'' = Some (Num None) \<and>
   map_of (row_at example_out 1) ''Hazardous'' = Some (Flag False)"
proof -
  have i: "1 < length (index example_out)"
    by (simp add: example_out_def)
  have l: "index example_out ! 1 = Timestamp 1452988800000000000"
    by (simp add: example_out_def)
  have rs: "readings example_clean =
      [(1451865600000000000, ''NOX'', 40), (1451865600000000000, ''PM10'', 10),
       (1451952000000000000, ''NOX'', 60), (1451952000000000000, ''PM10'', 12),
       (1453208400000000000, ''NOX'', 70), (1453208400000000000, ''NOX'', 80)]"
    by (simp add: example_clean_def example_stamped_def readings_def reading_def)
  have none: "\<forall>t v. (t, ''NOX'', v) \<in> set (readings example_clean) \<longrightarrow>
      \<not> in_bin 1452988800000000000 t"
    unfolding rs by (auto simp: in_bin_def bin_edge_def week_nanos_def day_nanos_def)
  from missing_aggregate_not_hazardous [OF example_run i] example_clean_run l none
  have "map_of (row_at example_out 1) ''NOX'' = Some (Num None) \<and>
        map_of (row_at example_out 1) ''Hazardous'' = Some (Flag False)"
    by blast
  then show ?thesis
    using example_run i example_clean_run l by simp
qed

text \<open>
  C2. In every row of the result the flag \<^verbatim>\<open>Hazardous\<close> is exactly the comparison of
  the NOX mean of the row with 50: true when the mean is greater, false otherwise, and
  so false when the mean is 50. In particular, for the readings NOX 40 and PM10 10 at
  one time stamp and NOX 60 and PM10 12 at another, both time stamps in the bin
  labelled \<open>l\<close>, the row of the result labelled \<open>l\<close> has the NOX mean 50, the PM10 mean
  11 and the flag false.
\<close>

theorem hazardous_flag:
  "(weekly_mean_table parse df = Inr out \<and> i < length (index out) \<longrightarrow>
      (\<exists>x. map_of (row_at out i) ''NOX'' = Some (Num x) \<and>
           map_of (row_at out i) ''Hazardous'' =
             Some (Flag (case x of None \<Rightarrow> False | Some (Finite v) \<Rightarrow> 50 < v
                         | Some PInf \<Rightarrow> True | Some NInf \<Rightarrow> False)))) \<and>
   (weekly_mean_table parse df = Inr out \<and> i < length (index out) \<and>
      map_of (row_at out i) ''NOX'' = Some (Num (Some (Finite 50))) \<longrightarrow>
      map_of (row_at out i) ''Hazardous'' = Some (Flag False)) \<and>
   (p s1 = Some (Timestamp t1) \<and> p s2 = Some (Timestamp t2) \<and>
      normalize l = l \<and> weekday l = 6 \<and> in_bin l t1 \<and> in_bin l t2 \<longrightarrow>
      (\<exists>out' j.
         weekly_mean_table p
           [example_row s1 ''NOX'' 40, example_row s1 ''PM10'' 10,
            example_row s2 ''NOX'' 60, example_row s2 ''PM10'' 12] = Inr out' \<and>
         j < length (index out') \<and> index out' ! j = Timestamp l \<and>
         map_of (row_at out' j) ''NOX'' = Some (Num (Some (Finite 50))) \<and>
         map_of (row_at out' j) ''PM10'' = Some (Num (Some (Finite 11))) \<and>
         map_of (row_at out' j) ''Hazardous'' = Some (Flag False)))"
proof (intro conjI impI)
  assume "weekly_mean_table parse df = Inr out \<and> i < length (index out)"
  then have r: "weekly_mean_table parse df = Inr out" and i: "i < length (index out)" by simp_all
  from flagged_cells [OF r i] obtain nox where
    "map_of (row_at out i) ''NOX'' = Some (Num (nox ! i))"
    "map_of (row_at out i) ''Hazardous'' = Some (Flag (gt (nox ! i) 50))"
    by blast
  moreover have "gt x 50 = (case x of None \<Rightarrow> False | Some (Finite v) \<Rightarrow> 50 < v
                         | Some PInf \<Rightarrow> True | Some NInf \<Rightarrow> False)" for x
  proof (cases x)
    case None
    then show ?thesis by simp
  next
    case (Some f)
    then show ?thesis by (cases f) simp_all
  qed
  ultimately show "\<exists>x. map_of (row_at out i) ''NOX'' = Some (Num x) \<and>
           map_of (row_at out i) ''Hazardous'' =
             Some (Flag (case x of None \<Rightarrow> False | Some (Finite v) \<Rightarrow> 50 < v
                         | Some PInf \<Rightarrow> True | Some NInf \<Rightarrow> False))"
    by auto
next
  assume "weekly_mean_table parse df = Inr out \<and> i < length (index out) \<and>
      map_of (row_at out i) ''NOX'' = Some (Num (Some (Finite 50)))"
  then have r: "weekly_mean_table parse df = Inr out" and i: "i < length (index out)"
    and n: "map_of (row_at out i) ''NOX'' = Some (Num (Some (Finite 50)))" by simp_all
  from flagged_cells [OF r i] obtain nox where
    "map_of (row_at out i) ''NOX'' = Some (Num (nox ! i))"
    "map_of (row_at out i) ''Hazardous'' = Some (Flag (gt (nox ! i) 50))"
    by blast
  with n show "map_of (row_at out i) ''Hazardous'' = Some (Flag False)" by simp
next
  let ?df = "[example_row s1 ''NOX'' 40, example_row s1 ''PM10'' 10,
              example_row s2 ''NOX'' 60, example_row s2 ''PM10'' 12]"
  let ?d = "[example_stamped t1 ''NOX'' 40, example_stamped t1 ''PM10'' 10,
             example_stamped t2 ''NOX'' 60, example_stamped t2 ''PM10'' 12]"
  let ?rs = "[(t1, ''NOX'', 40::rat), (t1, ''PM10'', 10), (t2, ''NOX'', 60), (t2, ''PM10'', 12)]"
  assume "p s1 = Some (Timestamp t1) \<and> p s2 = Some (Timestamp t2) \<and>
      normalize l = l \<and> weekday l = 6 \<and> in_bin l t1 \<and> in_bin l t2"
  then have p: "p s1 = Some (Timestamp t1)" "p s2 = Some (Timestamp t2)"
    and l: "normalize l = l" "weekday l = 6" and b: "in_bin l t1" "in_bin l t2"
    by simp_all
  have d: "astype_datetime64 p (dropna ?df) = Inr ?d"
    using p by (simp add: dropna_def notna_def example_row_def example_stamped_def stamp_row_def)
  have rs: "readings ?d = ?rs"
    by (simp add: readings_def reading_def example_stamped_def)
  have "''NOX'' \<in> (\<lambda>(t, c, v). c) ` set (readings ?d)"
    by (simp add: rs)
  from weekly_mean_table_succeeds [OF d this] obtain out' where
    out': "weekly_mean_table p ?df = Inr out'" ..
  from weekly_mean_table_Inr [OF out'] d obtain wm where
    wm: "resample_W_mean (pivot_table ?d) = Inr wm" and idx: "index out' = index wm"
    by auto
  have "t1 \<in> fst ` set (readings ?d)" by (simp add: rs)
  from bin_of_reading [OF wm this] obtain j where
    j: "j < length (index wm)" and lab: "index wm ! j = Timestamp (week_label t1)"
    by blast
  have l1: "week_label t1 = l" using sunday_label [OF l b(1)] by simp
  from j idx have j': "j < length (index out')" by simp
  from flagged_cells [OF out' j'] d wm obtain nox where
    nox: "map_of (columns wm) ''NOX'' = Some nox"
    and c1: "map_of (row_at out' j) ''NOX'' = Some (Num (nox ! j))"
    and c2: "map_of (row_at out' j) ''Hazardous'' = Some (Flag (gt (nox ! j) 50))"
    and c3: "\<forall>c col. c \<noteq> ''Hazardous'' \<and> map_of (columns wm) c = Some col \<longrightarrow>
              map_of (row_at out' j) c = Some (Num (col ! j))"
    by auto
  have idx0: "sort (remdups (map fst ?rs)) =
      (if t1 = t2 then [t1] else if t1 < t2 then [t1, t2] else [t2, t1])"
    by simp
  have n50: "nox ! j = Some (Finite 50)"
    unfolding weekly_cell [OF wm j lab nox] rs idx0 l1
    using b by (simp add: group_values_def mean_single mean_40_60 mean_10_12)
  have "''PM10'' \<in> (\<lambda>(t, c, v). c) ` set (readings ?d)"
    by (simp add: rs)
  then obtain pm where pm: "map_of (columns wm) ''PM10'' = Some pm"
    using weekly_column [OF wm j lab, of "''PM10''"] by simp
  have p11: "pm ! j = Some (Finite 11)"
    unfolding weekly_cell [OF wm j lab pm] rs idx0 l1
    using b by (simp add: group_values_def mean_single mean_40_60 mean_10_12)
  from c3 pm have c4: "map_of (row_at out' j) ''PM10'' = Some (Num (pm ! j))" by simp
  show "\<exists>out' j.
         weekly_mean_table p ?df = Inr out' \<and>
         j < length (index out') \<and> index out' ! j = Timestamp l \<and>
         map_of (row_at out' j) ''NOX'' = Some (Num (Some (Finite 50))) \<and>
         map_of (row_at out' j) ''PM10'' = Some (Num (Some (Finite 11))) \<and>
         map_of (row_at out' j) ''Hazardous'' = Some (Flag False)"
    using out' j' lab idx l1 c1 c2 c4 n50 p11 by (intro exI [of _ out'] exI [of _ j]) simp
qed

theorem hazardous_flag_witness:
  "weekly_mean_table example_parse example_df = Inr example_out \<and>
   map_of (row_at example_out 2) ''NOX'' = Some (Num (Some (Finite 75))) \<and>
   map_of (row_at example_out 2) ''Hazardous'' = Some (Flag True) \<and>
   map_of (row_at example_out 0) ''NOX'' = Some (Num (Some (Finite 50))) \<and>
   map_of (row_at example_out 0) ''Hazardous'' = Some (Flag False) \<and>
   example_parse ''2016-01-04 00:00:00'' = Some (Timestamp 1451865600000000000) \<and>
   example_parse ''2016-01-05 00:00:00'' = Some (Timestamp 1451952000000000000) \<and>
   in_bin 1452384000000000000 1451865600000000000 \<and>
   in_bin 1452384000000000000 1451952000000000000 \<and>
   (\<exists>out' j.
      weekly_mean_table example_parse
        [example_row ''2016-01-04 00:00:00'' ''NOX'' 40, example_row ''2016-01-04 00:00:00'' ''PM10'' 10,
         example_row ''2016-01-05 00:00:00'' ''NOX'' 60, example_row ''2016-01-05 00:00:00'' ''PM10'' 12] =
        Inr out' \<and>
      j < length (index out') \<and> index out' ! j = Timestamp 1452384000000000000 \<and>
      map_of (row_at out' j) ''NOX'' = Some (Num (Some (Finite 50))) \<and>
      map_of (row_at out' j) ''PM10'' = Some (Num (Some (Finite 11))) \<and>
      map_of (row_at out' j) ''Hazardous'' = Some (Flag False))"
proof -
  note t = hazardous_flag [of example_parse example_df example_out _ example_parse
      "''2016-01-04 00:00:00''" 1451865600000000000 "''2016-01-05 00:00:00''" 1451952000000000000
      1452384000000000000]
  have i2: "2 < length (index example_out)" and i0: "0 < length (index example_out)"
    by (simp_all add: example_out_def)
  have n2: "map_of (row_at example_out 2) ''NOX'' = Some (Num (Some (Finite 75)))"
    and n0: "map_of (row_at example_out 0) ''NOX'' = Some (Num (Some (Finite 50)))"
    by (simp_all add: example_out_def row_at_def)
  from t [of 2] example_run i2 n2
  have h2: "map_of (row_at example_out 2) ''Hazardous'' = Some (Flag True)"
    by auto
  from t [of 0] example_run i0 n0
  have h0: "map_of (row_at example_out 0) ''Hazardous'' = Some (Flag False)"
    by blast
  have p1: "example_parse ''2016-01-04 00:00:00'' = Some (Timestamp 1451865600000000000)"
    and p2: "example_parse ''2016-01-05 00:00:00'' = Some (Timestamp 1451952000000000000)"
    by (simp_all add: example_parse_def day_nanos_def)
  have l: "normalize 1452384000000000000 = 1452384000000000000"
      "weekday 1452384000000000000 = 6"
    by (simp_all add: normalize_def weekday_def day_nanos_def)
  have b: "in_bin 1452384000000000000 1451865600000000000"
      "in_bin 1452384000000000000 1451952000000000000"
    by (simp_all add: in_bin_def bin_edge_def week_nanos_def day_nanos_def)
  from t [of 0] p1 p2 l b
  have "\<exists>out' j.
      weekly_mean_table example_parse
        [example_row ''2016-01-04 00:00:00'' ''NOX'' 40, example_row ''2016-01-04 00:00:00'' ''PM10'' 10,
         example_row ''2016-01-05 00:00:00'' ''NOX'' 60, example_row ''2016-01-05 00:00:00'' ''PM10'' 12] =
        Inr out' \<and>
      j < length (index out') \<and> index out' ! j = Timestamp 1452384000000000000 \<and>
      map_of (row_at out' j) ''NOX'' = Some (Num (Some (Finite 50))) \<and>
      map_of (row_at out' j) ''PM10'' = Some (Num (Some (Finite 11))) \<and>
      map_of (row_at out' j) ''Hazardous'' = Some (Flag False)"
    by blast
  with example_run n2 h2 n0 h0 p1 p2 b show ?thesis
    by (intro conjI)
qed

end
